theory Spec2Isabelle
  imports Main "HOL-Library.Word" "HOL-Library.Sublist"
begin

section \<open>The Go library functions the runner calls\<close>

text \<open>
  The runner (\<^verbatim>\<open>runner/runner.go\<close>) is one Go file. This section embeds the pieces of
  the Go standard library it computes with: decimal formatting (\<^verbatim>\<open>%d\<close>),
  \<^verbatim>\<open>path.Base\<close>, \<^verbatim>\<open>strings.SplitN(s, "=", 2)\<close> and \<^verbatim>\<open>strings.HasPrefix\<close>.
  A Go \<^verbatim>\<open>string\<close> is a byte sequence, here a \<^typ>\<open>string\<close>.
\<close>

type_synonym int64 = "64 word"

text \<open>The verb \<^verbatim>\<open>%d\<close>: a minus sign for a negative number, then the decimal digits.\<close>

fun digits10 :: "nat \<Rightarrow> string" where
  "digits10 n =
     (if n < 10 then [''0123456789'' ! n]
      else digits10 (n div 10) @ [''0123456789'' ! (n mod 10)])"

declare digits10.simps [simp del]

definition fmt_d :: "int \<Rightarrow> string" where
  "fmt_d i = (if i < 0 then CHR ''-'' # digits10 (nat (- i)) else digits10 (nat i))"

text \<open>
  \<^verbatim>\<open>path.Base\<close>: the empty path gives \<^verbatim>\<open>"."\<close>; trailing slashes are stripped; the
  text after the last remaining slash is the result; a path of slashes only gives
  \<^verbatim>\<open>"/"\<close>.
\<close>

definition path_Base :: "string \<Rightarrow> string" where
  "path_Base p =
     (if p = [] then ''.''
      else
        let stripped = rev (dropWhile (\<lambda>c. c = CHR ''/'') (rev p));
            lastElem = rev (takeWhile (\<lambda>c. c \<noteq> CHR ''/'') (rev stripped))
        in if lastElem = [] then ''/'' else lastElem)"

text \<open>
  \<^verbatim>\<open>strings.SplitN(s, sep, 2)\<close> for a one-byte separator: without the separator the
  result is the one-element list \<^verbatim>\<open>[s]\<close>, otherwise the text before the first
  separator and the whole text after it.
\<close>

definition strings_SplitN_2 :: "string \<Rightarrow> char \<Rightarrow> string list" where
  "strings_SplitN_2 s sep =
     (if sep \<in> set s
      then [takeWhile (\<lambda>c. c \<noteq> sep) s, tl (dropWhile (\<lambda>c. c \<noteq> sep) s)]
      else [s])"

definition strings_HasPrefix :: "string \<Rightarrow> string \<Rightarrow> bool" where
  "strings_HasPrefix s pre = prefix pre s"

section \<open>Data\<close>

text \<open>
  The AWS SDK represents every optional attribute as a pointer (\<^verbatim>\<open>*string\<close>,
  \<^verbatim>\<open>*int64\<close>); such a field is an \<^typ>\<open>'a option\<close> here and dereferencing \<open>None\<close> is the
  run-time panic of Go. Structures the SDK allocates itself (a response, the elements
  of a list of tasks or containers) are plain values. Only the fields the runner reads
  or writes are kept.
\<close>

record Override =
  Service :: string
  Command :: "string list"

record Runner =
  Service :: string
  TaskName :: string
  TaskDefinitionFile :: string
  Cluster :: string
  LogGroupName :: string
  Region :: string
  Overrides :: "Override list"
  Fargate :: bool
  SecurityGroups :: "string list"
  Subnets :: "string list"
  Environment :: "string list"
  Count :: int64

record LogConfiguration =
  LogDriver :: "string option"
  Options :: "(string \<times> string option) list"

record ContainerDefinition =
  Name :: "string option"
  LogConfiguration :: "LogConfiguration option"

record RegisterTaskDefinitionInput =
  Family :: "string option"
  ContainerDefinitions :: "ContainerDefinition list"

record TaskDefinition =
  Family :: "string option"
  Revision :: "int64 option"

record KeyValuePair =
  Name :: "string option"
  Value :: "string option"

record ContainerOverride =
  Command :: "string option list"
  Name :: "string option"
  Environment :: "KeyValuePair list"

record TaskOverride =
  ContainerOverrides :: "ContainerOverride list"

record AwsVpcConfiguration =
  Subnets :: "string option list"
  AssignPublicIp :: "string option"
  SecurityGroups :: "string option list"

record NetworkConfiguration =
  AwsvpcConfiguration :: "AwsVpcConfiguration option"

record RunTaskInput =
  TaskDefinition :: "string option"
  Cluster :: "string option"
  Count :: "int64 option"
  Overrides :: "TaskOverride option"
  LaunchType :: "string option"
  NetworkConfiguration :: "NetworkConfiguration option"

record Container =
  ContainerArn :: "string option"
  Name :: "string option"
  LastStatus :: "string option"
  ExitCode :: "int64 option"
  Reason :: "string option"

record Task =
  TaskArn :: "string option"
  Containers :: "Container list"

record DescribeTasksInput =
  Cluster :: "string option"
  Tasks :: "string option list"

record FilteredLogEvent =
  Message :: "string option"

text \<open>
  The struct literals of \<^verbatim>\<open>Run\<close> give a \<^verbatim>\<open>logWatcher\<close> its log group, its log stream,
  the client and the \<^verbatim>\<open>Printer\<close> closure, and a \<^verbatim>\<open>logWriter\<close> its log group, its log
  stream and the client. The client (\<^verbatim>\<open>CloudWatchLogs\<close>, one handle for the whole run) is
  left out. The closure captures one variable, \<^verbatim>\<open>containerId\<close>; the record keeps that
  variable and the function \<open>Printer\<close> below is the closure's body.
\<close>

record logWatcher =
  LogGroupName :: string
  LogStreamName :: string
  containerId :: string

record logWriter =
  LogGroupName :: string
  LogStreamName :: string

subsection \<open>Errors\<close>

text \<open>
  An \<^verbatim>\<open>error\<close> built by \<^verbatim>\<open>fmt.Errorf\<close> is kept as its format and operands, one built
  by \<^verbatim>\<open>errors.New\<close> as its text, one returned by a collaborator (the parser, the AWS
  SDK, the log writer) as \<open>External\<close> with its text. \<^verbatim>\<open>exitError\<close> is the struct of
  the source: an embedded error and the exit code (Go's \<^verbatim>\<open>int\<close>, 64 bits on the
  targets the tool is built for, so the conversion \<^verbatim>\<open>int(*container.ExitCode)\<close> keeps
  the value).
\<close>

datatype arg = S string | D int

datatype error = Errorf string "arg list" | errors_New string | External string

record exitError =
  error :: error
  exitCode :: int64

definition exitError_ExitCode :: "exitError \<Rightarrow> int64" where
  "exitError_ExitCode ee = exitCode ee"

text \<open>
  How a call ends when it does not end well: it returns a plain error, it returns an
  \<^verbatim>\<open>*exitError\<close>, or it panics (a nil pointer is dereferenced, or \<^verbatim>\<open>session.Must\<close>
  is handed an error).
\<close>

datatype failure = Failed error | Exited exitError | Panic

subsection \<open>Effects\<close>

text \<open>
  What the goroutine of \<^verbatim>\<open>Run\<close> (and a \<^verbatim>\<open>Printer\<close>) does to the outside, in order:
  lines of the logger, lines on standard output, calls of the collaborators with their
  arguments, a watcher goroutine started (\<^verbatim>\<open>wg.Add(1); go ...\<close>), and the wait on the
  barrier (\<^verbatim>\<open>wg.Wait()\<close>).
\<close>

datatype event =
    LogPrintf string "arg list"
  | Println string
  | CreateLogGroup string
  | RegisterTaskDefinition RegisterTaskDefinitionInput
  | RunTask RunTaskInput
  | GoWatch logWatcher
  | WaitUntilTasksStopped DescribeTasksInput
  | DescribeTasks DescribeTasksInput
  | WriteString logWriter string
  | WgWait

text \<open>
  The collaborators' answers. None of them is defined in \<^verbatim>\<open>runner.go\<close>; a run is
  determined by them and by the \<^typ>\<open>Runner\<close>. An error is given by its text. The log
  writer answers each \<^verbatim>\<open>WriteString\<close> knowing everything that happened before it, so
  two writes of the same text need not end alike.
\<close>

record world =
  os_Environ :: "string list"
  os_LookupEnv :: "string \<Rightarrow> string option"
  time_Now_Nanosecond :: int
  parser_Parse :: "string \<Rightarrow> string list \<Rightarrow> string + RegisterTaskDefinitionInput"
  session_NewSession :: "string option"
  createLogGroup :: "string \<Rightarrow> string option"
  svc_RegisterTaskDefinition :: "RegisterTaskDefinitionInput \<Rightarrow> string + TaskDefinition"
  svc_RunTask :: "RunTaskInput \<Rightarrow> string + Task list"
  svc_WaitUntilTasksStopped :: "DescribeTasksInput \<Rightarrow> string option"
  svc_DescribeTasks :: "DescribeTasksInput \<Rightarrow> string + Task list"
  w_WriteString :: "event list \<Rightarrow> logWriter \<Rightarrow> string \<Rightarrow> string option"

text \<open>
  A step of the run takes the events so far and returns them extended, with its result
  or the way it failed.
\<close>

type_synonym 'a io = "event list \<Rightarrow> event list \<times> (failure + 'a)"

definition return_io :: "'a \<Rightarrow> 'a io" where
  "return_io x tr = (tr, Inr x)"

definition throw :: "failure \<Rightarrow> 'a io" where
  "throw f tr = (tr, Inl f)"

definition emit :: "event \<Rightarrow> unit io" where
  "emit e tr = (tr @ [e], Inr ())"

definition bind_io :: "'a io \<Rightarrow> ('a \<Rightarrow> 'b io) \<Rightarrow> 'b io" where
  "bind_io m f tr =
     (case m tr of
        (tr', Inl e) \<Rightarrow> (tr', Inl e)
      | (tr', Inr x) \<Rightarrow> f x tr')"

text \<open>\<^verbatim>\<open>*p\<close>: the value behind a pointer, a panic when the pointer is nil.\<close>

definition deref :: "'a option \<Rightarrow> 'a io" where
  "deref p = (case p of None \<Rightarrow> throw Panic | Some v \<Rightarrow> return_io v)"

text \<open>\<^verbatim>\<open>if err != nil { return err }\<close> after a call that returns a value and an error.\<close>

definition checked :: "string + 'a \<Rightarrow> 'a io" where
  "checked res = (case res of Inl e \<Rightarrow> throw (Failed (External e)) | Inr v \<Rightarrow> return_io v)"

text \<open>
  \<^verbatim>\<open>for _, x := range xs { ... }\<close> with a body that may return an error (or panic):
  the loop stops there.
\<close>

fun for_each :: "('a \<Rightarrow> unit io) \<Rightarrow> 'a list \<Rightarrow> unit io" where
  "for_each body [] tr = (tr, Inr ())"
| "for_each body (x # xs) tr =
     (case body x tr of
        (tr', Inl e) \<Rightarrow> (tr', Inl e)
      | (tr', Inr _) \<Rightarrow> for_each body xs tr')"

section \<open>The functions of runner.go\<close>

subsection \<open>awsStrings and awsKeyValuePairForEnv\<close>

definition awsStrings :: "string list \<Rightarrow> string option list" where
  "awsStrings ss = map Some ss"

text \<open>
  \<^verbatim>\<open>awsKeyValuePairForEnv\<close> (lines 287-310): the loop over \<^verbatim>\<open>wanted\<close> with the slice
  \<^verbatim>\<open>kvp\<close> built so far.
\<close>

fun awsKeyValuePairForEnv_loop ::
  "(string \<Rightarrow> string option) \<Rightarrow> string list \<Rightarrow> KeyValuePair list \<Rightarrow> error + KeyValuePair list"
where
  "awsKeyValuePairForEnv_loop lookupEnv [] kvp = Inr kvp"
| "awsKeyValuePairForEnv_loop lookupEnv (s # rest) kvp =
     (let parts = strings_SplitN_2 s (CHR ''='');
          key = parts ! 0
      in if length parts = 2
         then awsKeyValuePairForEnv_loop lookupEnv rest
                (kvp @ [\<lparr>KeyValuePair.Name = Some key, Value = Some (parts ! 1)\<rparr>])
         else (case lookupEnv (parts ! 0) of
                 None \<Rightarrow> Inl (Errorf ''missing environment variable %q'' [S key])
               | Some v2 \<Rightarrow>
                   awsKeyValuePairForEnv_loop lookupEnv rest
                     (kvp @ [\<lparr>KeyValuePair.Name = Some key, Value = Some v2\<rparr>])))"

definition awsKeyValuePairForEnv ::
  "(string \<Rightarrow> string option) \<Rightarrow> string list \<Rightarrow> error + KeyValuePair list"
where
  "awsKeyValuePairForEnv lookupEnv wanted = awsKeyValuePairForEnv_loop lookupEnv wanted []"

subsection \<open>logStreamName and writeContainerFinishedMessage\<close>

text \<open>\<^verbatim>\<open>logStreamName\<close> (lines 247-254): \<^verbatim>\<open>fmt.Sprintf("%s/%s/%s", ...)\<close>.\<close>

definition logStreamName :: "string \<Rightarrow> Container \<Rightarrow> Task \<Rightarrow> string io" where
  "logStreamName logStreamPrefix container task =
     bind_io (deref (Container.Name container)) (\<lambda>name.
     bind_io (deref (TaskArn task)) (\<lambda>taskArn.
     return_io (logStreamPrefix @ ''/'' @ name @ ''/'' @ path_Base taskArn)))"

text \<open>\<^verbatim>\<open>w.WriteString(ctx, text)\<close>: the call is made, the writer answers.\<close>

definition WriteString_io :: "world \<Rightarrow> logWriter \<Rightarrow> string \<Rightarrow> unit io" where
  "WriteString_io w lw text tr =
     (tr @ [WriteString lw text],
      case w_WriteString w tr lw text of
        None \<Rightarrow> Inr ()
      | Some e \<Rightarrow> Inl (Failed (External e)))"

text \<open>\<^verbatim>\<open>writeContainerFinishedMessage\<close> (lines 256-268).\<close>

definition writeContainerFinishedMessage ::
  "world \<Rightarrow> logWriter \<Rightarrow> Task \<Rightarrow> Container \<Rightarrow> unit io"
where
  "writeContainerFinishedMessage w lw task container =
     bind_io (deref (LastStatus container)) (\<lambda>lastStatus.
     if lastStatus \<noteq> ''STOPPED''
     then throw (Failed (Errorf ''expected container to be STOPPED, got %s'' [S lastStatus]))
     else (case ExitCode container of
             None \<Rightarrow>
               bind_io (deref (Reason container)) (\<lambda>reason.
               throw (Failed (errors_New reason)))
           | Some code \<Rightarrow>
               bind_io (deref (ContainerArn container)) (\<lambda>arn.
               WriteString_io w lw
                 (''Container '' @ path_Base arn @ '' exited with '' @ fmt_d (sint code)))))"

subsection \<open>The Printer closure\<close>

text \<open>
  The closure of lines 162-174, with its captured \<^verbatim>\<open>containerId\<close> as first argument.
  It returns what it printed and logged, and its boolean.
\<close>

definition Printer :: "string \<Rightarrow> FilteredLogEvent \<Rightarrow> bool io" where
  "Printer cid ev =
     (let finishedPrefix = ''Container '' @ cid @ '' exited with'' in
      bind_io (deref (Message ev)) (\<lambda>message.
      if strings_HasPrefix message finishedPrefix
      then bind_io (emit (LogPrintf ''Found container finished message for %s: %s''
                            [S cid, S message])) (\<lambda>_.
           return_io False)
      else bind_io (emit (Println message)) (\<lambda>_.
           return_io True)))"

subsection \<open>Run\<close>

text \<open>Lines 55-58: the stream prefix is the task name, or a generated one.\<close>

definition streamPrefix_of :: "world \<Rightarrow> Runner \<Rightarrow> string" where
  "streamPrefix_of w r =
     (if TaskName r = [] then ''run_task_'' @ fmt_d (time_Now_Nanosecond w) else TaskName r)"

text \<open>Lines 67-76: every container definition gets the log configuration.\<close>

definition set_LogConfiguration ::
  "Runner \<Rightarrow> string \<Rightarrow> ContainerDefinition \<Rightarrow> ContainerDefinition"
where
  "set_LogConfiguration r streamPrefix def =
     def\<lparr>LogConfiguration := Some
       \<lparr>LogDriver = Some ''awslogs'',
        Options = [(''awslogs-group'', Some (Runner.LogGroupName r)),
                   (''awslogs-region'', Some (Region r)),
                   (''awslogs-stream-prefix'', Some streamPrefix)]\<rparr>\<rparr>"

text \<open>Lines 89-108: the request, before the overrides are added.\<close>

definition new_RunTaskInput :: "Runner \<Rightarrow> string \<Rightarrow> RunTaskInput" where
  "new_RunTaskInput r taskDefinition =
     \<lparr>TaskDefinition = Some taskDefinition,
      RunTaskInput.Cluster = Some (Runner.Cluster r),
      RunTaskInput.Count = Some (Runner.Count r),
      RunTaskInput.Overrides = Some \<lparr>ContainerOverrides = []\<rparr>,
      LaunchType = (if Fargate r then Some ''FARGATE'' else None),
      NetworkConfiguration =
        (if length (Runner.Subnets r) > 0 \<or> length (Runner.SecurityGroups r) > 0
         then Some \<lparr>AwsvpcConfiguration = Some
                \<lparr>AwsVpcConfiguration.Subnets = awsStrings (Runner.Subnets r),
                 AssignPublicIp = Some ''ENABLED'',
                 AwsVpcConfiguration.SecurityGroups = awsStrings (Runner.SecurityGroups r)\<rparr>\<rparr>
         else None)\<rparr>"

text \<open>
  Lines 50-108, up to the loop over the overrides: parse the definition, open the
  session, create the log group, register the definition. The step returns the stream
  prefix, the definition as registered, its \<^verbatim>\<open>family:revision\<close> and the request.
\<close>

definition Run_register ::
  "world \<Rightarrow> Runner \<Rightarrow> (string \<times> RegisterTaskDefinitionInput \<times> string \<times> RunTaskInput) io"
where
  "Run_register w r =
     bind_io (checked (parser_Parse w (TaskDefinitionFile r) (os_Environ w))) (\<lambda>parsed.
     let streamPrefix = streamPrefix_of w r in
     bind_io (case session_NewSession w of None \<Rightarrow> return_io () | Some e \<Rightarrow> throw Panic) (\<lambda>_.
     bind_io (emit (CreateLogGroup (Runner.LogGroupName r))) (\<lambda>_.
     bind_io (case createLogGroup w (Runner.LogGroupName r) of
                None \<Rightarrow> return_io ()
              | Some e \<Rightarrow> throw (Failed (External e))) (\<lambda>_.
     bind_io (emit (LogPrintf ''Setting tasks to use log group %s''
                      [S (Runner.LogGroupName r)])) (\<lambda>_.
     let taskDefinitionInput = parsed
           \<lparr>ContainerDefinitions :=
              map (set_LogConfiguration r streamPrefix) (ContainerDefinitions parsed)\<rparr> in
     bind_io (deref (RegisterTaskDefinitionInput.Family taskDefinitionInput)) (\<lambda>family.
     bind_io (emit (LogPrintf ''Registering a task for %s'' [S family])) (\<lambda>_.
     bind_io (emit (RegisterTaskDefinition taskDefinitionInput)) (\<lambda>_.
     bind_io (checked (svc_RegisterTaskDefinition w taskDefinitionInput)) (\<lambda>resp.
     bind_io (deref (TaskDefinition.Family resp)) (\<lambda>respFamily.
     bind_io (deref (Revision resp)) (\<lambda>revision.
     let taskDefinition = respFamily @ '':'' @ fmt_d (sint revision) in
     return_io (streamPrefix, taskDefinitionInput, taskDefinition,
                new_RunTaskInput r taskDefinition))))))))))))"

text \<open>
  The body of the loop over \<^verbatim>\<open>r.Overrides\<close> (lines 111-140), with the container
  overrides collected so far.
\<close>

definition resolve_override ::
  "world \<Rightarrow> Runner \<Rightarrow> ContainerDefinition list \<Rightarrow> ContainerOverride list \<Rightarrow> Override \<Rightarrow>
   ContainerOverride list io"
where
  "resolve_override w r defs containerOverrides override =
     (if length (Override.Command override) > 0
      then
        bind_io
          (if Override.Service override = []
           then if length defs \<noteq> 1
                then throw (Failed (Errorf
                  (''No service provided for override and can't determine default service ''
                     @ ''with %d container definitions'')
                  [D (int (length defs))]))
                else bind_io (deref (ContainerDefinition.Name (defs ! 0))) (\<lambda>name.
                     bind_io (emit (LogPrintf (''Assuming override applies to '' @ [CHR 0x27]
                                      @ ''%s'' @ [CHR 0x27]) [S name])) (\<lambda>_.
                     return_io name))
           else return_io (Override.Service override)) (\<lambda>service.
        let cmds = map Some (Override.Command override) in
        case awsKeyValuePairForEnv (os_LookupEnv w) (Runner.Environment r) of
          Inl err \<Rightarrow> throw (Failed err)
        | Inr env \<Rightarrow>
            return_io (containerOverrides @
              [\<lparr>ContainerOverride.Command = cmds, ContainerOverride.Name = Some service,
                ContainerOverride.Environment = env\<rparr>]))
      else return_io containerOverrides)"

fun resolve_overrides ::
  "world \<Rightarrow> Runner \<Rightarrow> ContainerDefinition list \<Rightarrow> Override list \<Rightarrow> ContainerOverride list \<Rightarrow>
   ContainerOverride list io"
where
  "resolve_overrides w r defs [] containerOverrides tr = (tr, Inr containerOverrides)"
| "resolve_overrides w r defs (override # rest) containerOverrides tr =
     (case resolve_override w r defs containerOverrides override tr of
        (tr', Inl e) \<Rightarrow> (tr', Inl e)
      | (tr', Inr containerOverrides') \<Rightarrow> resolve_overrides w r defs rest containerOverrides' tr')"

text \<open>
  Lines 50-147: everything up to and including the submission of the job. The step
  returns the stream prefix and the tasks of the response.
\<close>

definition Run_submit :: "world \<Rightarrow> Runner \<Rightarrow> (string \<times> Task list) io" where
  "Run_submit w r =
     bind_io (Run_register w r) (\<lambda>(streamPrefix, taskDefinitionInput, taskDefinition, input0).
     bind_io (resolve_overrides w r (ContainerDefinitions taskDefinitionInput)
                (Runner.Overrides r) []) (\<lambda>containerOverrides.
     let runTaskInput = input0
           \<lparr>RunTaskInput.Overrides := Some \<lparr>ContainerOverrides = containerOverrides\<rparr>\<rparr> in
     bind_io (emit (LogPrintf ''Running task %s'' [S taskDefinition])) (\<lambda>_.
     bind_io (emit (RunTask runTaskInput)) (\<lambda>_.
     case svc_RunTask w runTaskInput of
       Inl e \<Rightarrow> throw (Failed (Errorf ''Unable to run task: %s'' [S e]))
     | Inr tasks \<Rightarrow> return_io (streamPrefix, tasks)))))"

text \<open>Lines 155-175: the watcher of one container.\<close>

definition new_logWatcher :: "Runner \<Rightarrow> string \<Rightarrow> Task \<Rightarrow> Container \<Rightarrow> logWatcher io" where
  "new_logWatcher r streamPrefix task container =
     bind_io (deref (ContainerArn container)) (\<lambda>arn.
     let cid = path_Base arn in
     bind_io (logStreamName streamPrefix container task) (\<lambda>stream.
     return_io \<lparr>logWatcher.LogGroupName = Runner.LogGroupName r,
                logWatcher.LogStreamName = stream, containerId = cid\<rparr>))"

text \<open>Lines 153-185: one watcher goroutine for each container of each task.\<close>

definition spawn_watchers :: "Runner \<Rightarrow> string \<Rightarrow> Task list \<Rightarrow> unit io" where
  "spawn_watchers r streamPrefix tasks =
     for_each (\<lambda>task.
       for_each (\<lambda>container.
         bind_io (new_logWatcher r streamPrefix task container) (\<lambda>watcher.
         emit (GoWatch watcher)))
       (Containers task))
     tasks"

text \<open>
  Lines 187-209: wait until the tasks have stopped, then describe them. The step
  returns the tasks of the description.
\<close>

definition await_stopped :: "world \<Rightarrow> Runner \<Rightarrow> Task list \<Rightarrow> Task list io" where
  "await_stopped w r tasks =
     bind_io (for_each (\<lambda>task.
                bind_io (deref (TaskArn task)) (\<lambda>arn.
                emit (LogPrintf ''Waiting until task %s has stopped'' [S arn])))
              tasks) (\<lambda>_.
     let input = \<lparr>DescribeTasksInput.Cluster = Some (Runner.Cluster r),
                  Tasks = map TaskArn tasks\<rparr> in
     bind_io (emit (WaitUntilTasksStopped input)) (\<lambda>_.
     bind_io (case svc_WaitUntilTasksStopped w input of
                None \<Rightarrow> return_io ()
              | Some e \<Rightarrow> throw (Failed (External e))) (\<lambda>_.
     bind_io (emit (LogPrintf ''All tasks have stopped'' [])) (\<lambda>_.
     bind_io (emit (DescribeTasks input)) (\<lambda>_.
     checked (svc_DescribeTasks w input))))))"

text \<open>Lines 214-218: the writer of one container.\<close>

definition new_logWriter :: "Runner \<Rightarrow> string \<Rightarrow> Task \<Rightarrow> Container \<Rightarrow> logWriter io" where
  "new_logWriter r streamPrefix task container =
     bind_io (logStreamName streamPrefix container task) (\<lambda>stream.
     return_io \<lparr>logWriter.LogGroupName = Runner.LogGroupName r,
                logWriter.LogStreamName = stream\<rparr>)"

text \<open>Lines 214-221: the finish message of one container.\<close>

definition finish_container ::
  "world \<Rightarrow> Runner \<Rightarrow> string \<Rightarrow> Task \<Rightarrow> Container \<Rightarrow> unit io"
where
  "finish_container w r streamPrefix task container =
     bind_io (new_logWriter r streamPrefix task container) (\<lambda>lw.
     writeContainerFinishedMessage w lw task container)"

text \<open>Lines 212-223: the finish message of each container of each described task.\<close>

definition finalize :: "world \<Rightarrow> Runner \<Rightarrow> string \<Rightarrow> Task list \<Rightarrow> unit io" where
  "finalize w r streamPrefix tasks =
     for_each (\<lambda>task.
       for_each (\<lambda>container. finish_container w r streamPrefix task container)
       (Containers task))
     tasks"

text \<open>Lines 225-226: the join on the watchers.\<close>

definition join :: "unit io" where
  "join = bind_io (emit (LogPrintf ''Waiting for logs to finish'' [])) (\<lambda>_. emit WgWait)"

text \<open>Lines 231-240: the test of one container's exit code.\<close>

definition exit_check :: "Container \<Rightarrow> unit io" where
  "exit_check container =
     bind_io (deref (ExitCode container)) (\<lambda>code.
     if code \<noteq> 0
     then bind_io (deref (Container.Name container)) (\<lambda>name.
          throw (Exited \<lparr>error = Errorf ''container %s exited with %d''
                                   [S name, D (sint code)],
                         exitCode = code\<rparr>))
     else return_io ())"

text \<open>
  Lines 229-244: the exit code of the run, from the described tasks. The loop returns
  at the first container with a non-zero exit code; after the loop the function returns
  \<^verbatim>\<open>err\<close>, which is nil there.
\<close>

definition aggregate :: "Task list \<Rightarrow> unit io" where
  "aggregate tasks =
     for_each (\<lambda>task.
       for_each (\<lambda>container. exit_check container) (Containers task))
     tasks"

text \<open>
  Lines 50-209: the run up to and including the description of the stopped tasks. The
  step returns the stream prefix and the described tasks (\<^verbatim>\<open>output.Tasks\<close>).
\<close>

definition Run_describe :: "world \<Rightarrow> Runner \<Rightarrow> (string \<times> Task list) io" where
  "Run_describe w r =
     bind_io (Run_submit w r) (\<lambda>(streamPrefix, tasks).
     bind_io (spawn_watchers r streamPrefix tasks) (\<lambda>_.
     bind_io (await_stopped w r tasks) (\<lambda>described.
     return_io (streamPrefix, described))))"

text \<open>
  Lines 50-226: the run up to and including the join. The step returns the described
  tasks, which the aggregation reads.
\<close>

definition Run_join :: "world \<Rightarrow> Runner \<Rightarrow> Task list io" where
  "Run_join w r =
     bind_io (Run_describe w r) (\<lambda>(streamPrefix, described).
     bind_io (finalize w r streamPrefix described) (\<lambda>_.
     bind_io join (\<lambda>_.
     return_io described)))"

text \<open>\<^verbatim>\<open>Run\<close> (lines 49-245). \<open>Inr ()\<close> is the nil error.\<close>

definition Run :: "world \<Rightarrow> Runner \<Rightarrow> unit io" where
  "Run w r = bind_io (Run_join w r) (\<lambda>described. aggregate described)"

section \<open>Example inputs\<close>

text \<open>
  A host environment that knows \<^verbatim>\<open>HOME\<close> only, and collaborators that answer a run of
  one task: the parser yields the given container definitions, the backend the given
  tasks, the log writer answers as given.
\<close>

definition demo_lookupEnv :: "string \<Rightarrow> string option" where
  "demo_lookupEnv k = (if k = ''HOME'' then Some ''/root'' else None)"

definition demo_container :: "string \<Rightarrow> string \<Rightarrow> int64 option \<Rightarrow> Container" where
  "demo_container name cid code =
     \<lparr>ContainerArn = Some (''arn:aws:ecs:eu-west-1:1:container/'' @ cid),
      Container.Name = Some name, LastStatus = Some ''STOPPED'', ExitCode = code,
      Reason = Some ''OutOfMemoryError''\<rparr>"

definition demo_task :: "Container list \<Rightarrow> Task" where
  "demo_task cs = \<lparr>TaskArn = Some ''arn:aws:ecs:eu-west-1:1:task/t1'', Containers = cs\<rparr>"

definition demo_world ::
  "ContainerDefinition list \<Rightarrow> Task list \<Rightarrow>
   (event list \<Rightarrow> logWriter \<Rightarrow> string \<Rightarrow> string option) \<Rightarrow> world"
where
  "demo_world defs described answer =
     \<lparr>os_Environ = [''HOME=/root''],
      os_LookupEnv = demo_lookupEnv,
      time_Now_Nanosecond = 42,
      parser_Parse = (\<lambda>file env. Inr \<lparr>RegisterTaskDefinitionInput.Family = Some ''job'',
                                        ContainerDefinitions = defs\<rparr>),
      session_NewSession = None,
      createLogGroup = (\<lambda>g. None),
      svc_RegisterTaskDefinition =
        (\<lambda>i. Inr \<lparr>TaskDefinition.Family = Some ''job'', Revision = Some 7\<rparr>),
      svc_RunTask = (\<lambda>i. Inr described),
      svc_WaitUntilTasksStopped = (\<lambda>i. None),
      svc_DescribeTasks = (\<lambda>i. Inr described),
      w_WriteString = answer\<rparr>"

definition demo_runner :: "Override list \<Rightarrow> string list \<Rightarrow> Runner" where
  "demo_runner ovs env =
     \<lparr>Runner.Service = [], TaskName = ''demo'', TaskDefinitionFile = ''task.json'',
      Runner.Cluster = ''default'', Runner.LogGroupName = ''grp'', Region = ''eu-west-1'',
      Runner.Overrides = ovs, Fargate = False, Runner.SecurityGroups = [],
      Runner.Subnets = [], Runner.Environment = env, Runner.Count = 1\<rparr>"

text \<open>Two container definitions, a log writer that accepts every write, and described tasks.\<close>

definition demo_defs :: "ContainerDefinition list" where
  "demo_defs = [\<lparr>ContainerDefinition.Name = Some ''worker'', LogConfiguration = None\<rparr>]"

definition demo_defs2 :: "ContainerDefinition list" where
  "demo_defs2 = [\<lparr>ContainerDefinition.Name = Some ''worker'', LogConfiguration = None\<rparr>,
                 \<lparr>ContainerDefinition.Name = Some ''side'', LogConfiguration = None\<rparr>]"

definition demo_accept :: "event list \<Rightarrow> logWriter \<Rightarrow> string \<Rightarrow> string option" where
  "demo_accept tr lw msg = None"

definition demo_tasks :: "int64 option list \<Rightarrow> Task list" where
  "demo_tasks codes =
     [demo_task [demo_container ''worker'' ''c1'' (codes ! 0),
                 demo_container ''side'' ''c2'' (codes ! 1)],
      demo_task [demo_container ''db'' ''c3'' (codes ! 2),
                 demo_container ''cache'' ''c4'' (codes ! 3)]]"

text \<open>A log writer that rejects the finish message of the second container.\<close>

definition demo_reject :: "event list \<Rightarrow> logWriter \<Rightarrow> string \<Rightarrow> string option" where
  "demo_reject tr lw msg =
     (if msg = ''Container c2 exited with 0'' then Some ''ThrottlingException'' else None)"

section \<open>Auxiliary notions of the proofs\<close>

text \<open>
  What \<^verbatim>\<open>awsKeyValuePairForEnv\<close> owes one entry: the pair \<open>(K, V)\<close> for an entry
  \<^verbatim>\<open>K=V\<close> split at its first \<^verbatim>\<open>=\<close>, the pair \<open>(K, v)\<close> for a bare entry that the
  lookup finds with value \<open>v\<close>.
\<close>

definition resolved :: "(string \<Rightarrow> string option) \<Rightarrow> string \<Rightarrow> KeyValuePair \<Rightarrow> bool" where
  "resolved lookupEnv s p =
     ((\<forall>K V. s = K @ ''='' @ V \<and> CHR ''='' \<notin> set K \<longrightarrow>
          p = \<lparr>KeyValuePair.Name = Some K, Value = Some V\<rparr>) \<and>
      (CHR ''='' \<notin> set s \<longrightarrow>
          (\<exists>v. lookupEnv s = Some v \<and> p = \<lparr>KeyValuePair.Name = Some s, Value = Some v\<rparr>)))"

text \<open>
  A step \<open>emits_only P\<close> when, from any events so far, it only appends events that
  satisfy \<open>P\<close>, and does not end with an \<^verbatim>\<open>*exitError\<close>.
\<close>

definition emits_only :: "(event \<Rightarrow> bool) \<Rightarrow> 'a io \<Rightarrow> bool" where
  "emits_only P m =
     (\<forall>tr. \<exists>d res. m tr = (tr @ d, res) \<and> list_all P d \<and> (\<forall>ee. res \<noteq> Inl (Exited ee)))"

fun is_WriteString :: "event \<Rightarrow> bool" where
  "is_WriteString (WriteString lw text) = True"
| "is_WriteString _ = False"

fun is_RunTask :: "event \<Rightarrow> bool" where
  "is_RunTask (RunTask input) = True"
| "is_RunTask _ = False"

text \<open>The events of the run before the job is submitted.\<close>

fun is_setup :: "event \<Rightarrow> bool" where
  "is_setup (LogPrintf format args) = True"
| "is_setup (CreateLogGroup name) = True"
| "is_setup (RegisterTaskDefinition input) = True"
| "is_setup _ = False"

text \<open>The events of the run before the finish messages are written.\<close>

definition is_early :: "event \<Rightarrow> bool" where
  "is_early e = (\<not> is_WriteString e \<and> e \<noteq> WgWait)"

text \<open>
  Every write among the events \<open>d\<close>, appended after \<open>tr\<close>, that the log writer answered
  with an error is the last event, and that error is the result.
\<close>

definition writes_checked :: "world \<Rightarrow> event list \<Rightarrow> event list \<Rightarrow> failure + 'a \<Rightarrow> bool" where
  "writes_checked w tr d res =
     (\<forall>pre lw text post e.
        d = pre @ WriteString lw text # post \<and> w_WriteString w (tr @ pre) lw text = Some e \<longrightarrow>
        post = [] \<and> res = Inl (Failed (External e)))"

definition finalizes :: "world \<Rightarrow> 'a io \<Rightarrow> bool" where
  "finalizes w m =
     (\<forall>tr. \<exists>d res. m tr = (tr @ d, res) \<and> list_all is_WriteString d \<and>
        (\<forall>ee. res \<noteq> Inl (Exited ee)) \<and> writes_checked w tr d res)"

text \<open>
  The events that start a watcher, and the events that are neither that nor a write
  of the log writer.
\<close>

fun is_GoWatch :: "event \<Rightarrow> bool" where
  "is_GoWatch (GoWatch watcher) = True"
| "is_GoWatch _ = False"

definition is_plain :: "event \<Rightarrow> bool" where
  "is_plain e = (\<not> is_GoWatch e \<and> \<not> is_WriteString e)"

text \<open>The containers of a list of tasks, each with its task, in the order of the loops.\<close>

definition container_pairs :: "Task list \<Rightarrow> (Task \<times> Container) list" where
  "container_pairs tasks = concat (map (\<lambda>task. map (Pair task) (Containers task)) tasks)"

text \<open>
  \<open>watches r pre e x\<close>: the event \<open>e\<close> starts the watcher of the container \<open>x\<close> (with
  its task) on the stream \<open>pre/containerName/taskIdBase\<close>; \<open>finishes r pre e x\<close>: the
  event \<open>e\<close> is the write of the finish message of the container \<open>x\<close> to that stream.
\<close>

definition watches :: "Runner \<Rightarrow> string \<Rightarrow> event \<Rightarrow> Task \<times> Container \<Rightarrow> bool" where
  "watches r pre e x =
     (\<exists>name taskArn arn.
        Container.Name (snd x) = Some name \<and> TaskArn (fst x) = Some taskArn \<and>
        ContainerArn (snd x) = Some arn \<and>
        e = GoWatch \<lparr>logWatcher.LogGroupName = Runner.LogGroupName r,
                      logWatcher.LogStreamName = pre @ ''/'' @ name @ ''/'' @ path_Base taskArn,
                      containerId = path_Base arn\<rparr>)"

definition finishes :: "Runner \<Rightarrow> string \<Rightarrow> event \<Rightarrow> Task \<times> Container \<Rightarrow> bool" where
  "finishes r pre e x =
     (\<exists>name taskArn arn code.
        Container.Name (snd x) = Some name \<and> TaskArn (fst x) = Some taskArn \<and>
        ContainerArn (snd x) = Some arn \<and> ExitCode (snd x) = Some code \<and>
        e = WriteString
              \<lparr>logWriter.LogGroupName = Runner.LogGroupName r,
               logWriter.LogStreamName = pre @ ''/'' @ name @ ''/'' @ path_Base taskArn\<rparr>
              (''Container '' @ path_Base arn @ '' exited with '' @ fmt_d (sint code)))"

section \<open>Properties\<close>

subsection \<open>awsKeyValuePairForEnv\<close>

lemma takeWhile_until_sep:
  "sep \<notin> set K \<Longrightarrow> takeWhile (\<lambda>c. c \<noteq> sep) (K @ sep # V) = K"
  by (induction K) auto

lemma dropWhile_until_sep:
  "sep \<notin> set K \<Longrightarrow> dropWhile (\<lambda>c. c \<noteq> sep) (K @ sep # V) = sep # V"
  by (induction K) auto

lemma SplitN_2_with_sep:
  "sep \<notin> set K \<Longrightarrow> strings_SplitN_2 (K @ sep # V) sep = [K, V]"
  by (simp add: strings_SplitN_2_def takeWhile_until_sep dropWhile_until_sep)

lemma SplitN_2_without_sep:
  "sep \<notin> set s \<Longrightarrow> strings_SplitN_2 s sep = [s]"
  by (simp add: strings_SplitN_2_def)

lemma loop_step_pair:
  "CHR ''='' \<notin> set K \<Longrightarrow>
   awsKeyValuePairForEnv_loop f ((K @ CHR ''='' # V) # rest) kvp =
   awsKeyValuePairForEnv_loop f rest (kvp @ [\<lparr>KeyValuePair.Name = Some K, Value = Some V\<rparr>])"
  by (simp add: SplitN_2_with_sep)

lemma loop_step_bare:
  "CHR ''='' \<notin> set s \<Longrightarrow>
   awsKeyValuePairForEnv_loop f (s # rest) kvp =
   (case f s of
      None \<Rightarrow> Inl (Errorf ''missing environment variable %q'' [S s])
    | Some v \<Rightarrow> awsKeyValuePairForEnv_loop f rest
                 (kvp @ [\<lparr>KeyValuePair.Name = Some s, Value = Some v\<rparr>]))"
  by (simp add: SplitN_2_without_sep)

declare awsKeyValuePairForEnv_loop.simps(2) [simp del]

lemma entry_shape:
  obtains (bare) "CHR ''='' \<notin> set s"
  | (pair) K V where "s = K @ CHR ''='' # V" "CHR ''='' \<notin> set K"
  by (meson split_list_first)


lemma resolved_pair:
  assumes "CHR ''='' \<notin> set K"
  shows "resolved f (K @ CHR ''='' # V) \<lparr>KeyValuePair.Name = Some K, Value = Some V\<rparr>"
proof -
  have "K' = K \<and> V' = V"
    if "K @ CHR ''='' # V = K' @ CHR ''='' # V'" "CHR ''='' \<notin> set K'" for K' V'
  proof -
    have "takeWhile (\<lambda>c. c \<noteq> CHR ''='') (K @ CHR ''='' # V) = K"
      using assms by (rule takeWhile_until_sep)
    moreover have "takeWhile (\<lambda>c. c \<noteq> CHR ''='') (K' @ CHR ''='' # V') = K'"
      using that(2) by (rule takeWhile_until_sep)
    ultimately have "K' = K" using that(1) by simp
    with that(1) show ?thesis by simp
  qed
  then show ?thesis by (auto simp: resolved_def)
qed

lemma resolved_bare:
  "CHR ''='' \<notin> set s \<Longrightarrow> f s = Some v \<Longrightarrow>
   resolved f s \<lparr>KeyValuePair.Name = Some s, Value = Some v\<rparr>"
  by (auto simp: resolved_def)

lemma loop_Inr:
  "awsKeyValuePairForEnv_loop f wanted kvp = Inr out \<Longrightarrow>
   \<exists>ps. out = kvp @ ps \<and> list_all2 (resolved f) wanted ps"
proof (induction wanted arbitrary: kvp)
  case Nil
  then show ?case by simp
next
  case (Cons s rest)
  show ?case
  proof (cases s rule: entry_shape)
    case bare
    with Cons.prems obtain v where v: "f s = Some v"
      and rec: "awsKeyValuePairForEnv_loop f rest
                  (kvp @ [\<lparr>KeyValuePair.Name = Some s, Value = Some v\<rparr>]) = Inr out"
      by (auto simp: loop_step_bare split: option.splits)
    from Cons.IH [OF rec] obtain ps where
      "out = (kvp @ [\<lparr>KeyValuePair.Name = Some s, Value = Some v\<rparr>]) @ ps"
      "list_all2 (resolved f) rest ps"
      by blast
    moreover have "resolved f s \<lparr>KeyValuePair.Name = Some s, Value = Some v\<rparr>"
      using bare v by (rule resolved_bare)
    ultimately show ?thesis by simp
  next
    case (pair K V)
    with Cons.prems have rec: "awsKeyValuePairForEnv_loop f rest
                  (kvp @ [\<lparr>KeyValuePair.Name = Some K, Value = Some V\<rparr>]) = Inr out"
      by (simp add: loop_step_pair)
    from Cons.IH [OF rec] obtain ps where
      "out = (kvp @ [\<lparr>KeyValuePair.Name = Some K, Value = Some V\<rparr>]) @ ps"
      "list_all2 (resolved f) rest ps"
      by blast
    moreover have "resolved f s \<lparr>KeyValuePair.Name = Some K, Value = Some V\<rparr>"
      unfolding pair(1) using pair(2) by (rule resolved_pair)
    ultimately show ?thesis by simp
  qed
qed

lemma loop_Inl:
  "awsKeyValuePairForEnv_loop f wanted kvp = Inl e \<Longrightarrow>
   \<exists>K\<in>set wanted. CHR ''='' \<notin> set K \<and> f K = None \<and>
       e = Errorf ''missing environment variable %q'' [S K]"
proof (induction wanted arbitrary: kvp)
  case Nil
  then show ?case by simp
next
  case (Cons s rest)
  show ?case
  proof (cases s rule: entry_shape)
    case bare
    show ?thesis
    proof (cases "f s")
      case None
      with bare Cons.prems show ?thesis by (simp add: loop_step_bare)
    next
      case (Some v)
      with bare Cons.prems have "awsKeyValuePairForEnv_loop f rest
          (kvp @ [\<lparr>KeyValuePair.Name = Some s, Value = Some v\<rparr>]) = Inl e"
        by (simp add: loop_step_bare)
      from Cons.IH [OF this] show ?thesis by simp
    qed
  next
    case (pair K V)
    with Cons.prems have "awsKeyValuePairForEnv_loop f rest
          (kvp @ [\<lparr>KeyValuePair.Name = Some K, Value = Some V\<rparr>]) = Inl e"
      by (simp add: loop_step_pair)
    from Cons.IH [OF this] show ?thesis by simp
  qed
qed

lemma loop_missing:
  "K \<in> set wanted \<Longrightarrow> CHR ''='' \<notin> set K \<Longrightarrow> f K = None \<Longrightarrow>
   \<exists>e. awsKeyValuePairForEnv_loop f wanted kvp = Inl e"
proof (induction wanted arbitrary: kvp)
  case Nil
  then show ?case by simp
next
  case (Cons s rest)
  show ?case
  proof (cases s rule: entry_shape)
    case bare
    show ?thesis
    proof (cases "f s")
      case None
      with bare show ?thesis by (simp add: loop_step_bare)
    next
      case (Some v)
      with Cons.prems have "K \<in> set rest" by auto
      from Cons.IH [OF this Cons.prems(2,3)] bare Some show ?thesis
        by (simp add: loop_step_bare)
    qed
  next
    case (pair K' V')
    with Cons.prems have "K \<in> set rest" by auto
    from Cons.IH [OF this Cons.prems(2,3)] pair show ?thesis
      by (simp add: loop_step_pair)
  qed
qed

lemma loop_lookup_cong:
  "(\<And>s. s \<in> set wanted \<Longrightarrow> CHR ''='' \<notin> set s \<Longrightarrow> f s = g s) \<Longrightarrow>
   awsKeyValuePairForEnv_loop f wanted kvp = awsKeyValuePairForEnv_loop g wanted kvp"
proof (induction wanted arbitrary: kvp)
  case Nil
  then show ?case by simp
next
  case (Cons s rest)
  have IH: "awsKeyValuePairForEnv_loop f rest kvp' = awsKeyValuePairForEnv_loop g rest kvp'"
    for kvp'
    using Cons.prems by (intro Cons.IH) simp_all
  show ?case
  proof (cases s rule: entry_shape)
    case bare
    then have "f s = g s" using Cons.prems by simp
    with bare IH show ?thesis by (simp add: loop_step_bare split: option.splits)
  next
    case (pair K V)
    with IH show ?thesis by (simp add: loop_step_pair)
  qed
qed

text \<open>
  Claim C5. For every lookup and every list of entries, \<^verbatim>\<open>awsKeyValuePairForEnv\<close>
  either returns one pair for each entry, in the order of the entries (nothing is
  dropped, merged or rejected for its name): \<open>(K, V)\<close> for an entry \<^verbatim>\<open>K=V\<close> split at
  its first \<^verbatim>\<open>=\<close>, and \<open>(K, v)\<close> for a bare entry \<open>K\<close> that the lookup finds with
  value \<open>v\<close>; or it fails with the error "missing environment variable" of a bare entry
  that the lookup does not find. It fails whenever there is such an entry. The lookup
  is consulted for bare entries only: two lookups that agree on the bare entries give
  the same result.
\<close>

theorem awsKeyValuePairForEnv_resolves:
  "(case awsKeyValuePairForEnv lookupEnv wanted of
      Inr kvp \<Rightarrow>
        length kvp = length wanted \<and>
        (\<forall>i<length wanted.
           (\<forall>K V. wanted ! i = K @ ''='' @ V \<and> CHR ''='' \<notin> set K \<longrightarrow>
              kvp ! i = \<lparr>KeyValuePair.Name = Some K, Value = Some V\<rparr>) \<and>
           (CHR ''='' \<notin> set (wanted ! i) \<longrightarrow>
              (\<exists>v. lookupEnv (wanted ! i) = Some v \<and>
                   kvp ! i = \<lparr>KeyValuePair.Name = Some (wanted ! i), Value = Some v\<rparr>)))
    | Inl e \<Rightarrow>
        \<exists>K\<in>set wanted. CHR ''='' \<notin> set K \<and> lookupEnv K = None \<and>
           e = Errorf ''missing environment variable %q'' [S K]) \<and>
   ((\<exists>K\<in>set wanted. CHR ''='' \<notin> set K \<and> lookupEnv K = None) \<longrightarrow>
      (\<exists>e. awsKeyValuePairForEnv lookupEnv wanted = Inl e)) \<and>
   (\<forall>lookupEnv'.
      (\<forall>s\<in>set wanted. CHR ''='' \<notin> set s \<longrightarrow> lookupEnv' s = lookupEnv s) \<longrightarrow>
      awsKeyValuePairForEnv lookupEnv' wanted = awsKeyValuePairForEnv lookupEnv wanted)"
proof (intro conjI)
  show "case awsKeyValuePairForEnv lookupEnv wanted of
      Inr kvp \<Rightarrow>
        length kvp = length wanted \<and>
        (\<forall>i<length wanted.
           (\<forall>K V. wanted ! i = K @ ''='' @ V \<and> CHR ''='' \<notin> set K \<longrightarrow>
              kvp ! i = \<lparr>KeyValuePair.Name = Some K, Value = Some V\<rparr>) \<and>
           (CHR ''='' \<notin> set (wanted ! i) \<longrightarrow>
              (\<exists>v. lookupEnv (wanted ! i) = Some v \<and>
                   kvp ! i = \<lparr>KeyValuePair.Name = Some (wanted ! i), Value = Some v\<rparr>)))
    | Inl e \<Rightarrow>
        \<exists>K\<in>set wanted. CHR ''='' \<notin> set K \<and> lookupEnv K = None \<and>
           e = Errorf ''missing environment variable %q'' [S K]"
  proof (cases "awsKeyValuePairForEnv lookupEnv wanted")
    case (Inl e)
    then show ?thesis
      using loop_Inl [of lookupEnv wanted "[]" e] by (simp add: awsKeyValuePairForEnv_def)
  next
    case (Inr kvp)
    then have "list_all2 (resolved lookupEnv) wanted kvp"
      using loop_Inr [of lookupEnv wanted "[]" kvp] by (simp add: awsKeyValuePairForEnv_def)
    then have "length kvp = length wanted"
      and "\<forall>i<length wanted. resolved lookupEnv (wanted ! i) (kvp ! i)"
      by (simp_all add: list_all2_conv_all_nth)
    with Inr show ?thesis by (simp add: resolved_def)
  qed
next
  show "(\<exists>K\<in>set wanted. CHR ''='' \<notin> set K \<and> lookupEnv K = None) \<longrightarrow>
      (\<exists>e. awsKeyValuePairForEnv lookupEnv wanted = Inl e)"
    unfolding awsKeyValuePairForEnv_def by (blast intro: loop_missing)
next
  show "\<forall>lookupEnv'.
      (\<forall>s\<in>set wanted. CHR ''='' \<notin> set s \<longrightarrow> lookupEnv' s = lookupEnv s) \<longrightarrow>
      awsKeyValuePairForEnv lookupEnv' wanted = awsKeyValuePairForEnv lookupEnv wanted"
    unfolding awsKeyValuePairForEnv_def by (blast intro: loop_lookup_cong)
qed


theorem awsKeyValuePairForEnv_resolves_witness:
  "CHR ''='' \<notin> set ''HOME'' \<and> demo_lookupEnv ''HOME'' = Some ''/root'' \<and>
   awsKeyValuePairForEnv demo_lookupEnv [''FOO=bar=baz'', ''HOME''] =
     Inr [\<lparr>KeyValuePair.Name = Some ''FOO'', Value = Some ''bar=baz''\<rparr>,
          \<lparr>KeyValuePair.Name = Some ''HOME'', Value = Some ''/root''\<rparr>] \<and>
   CHR ''='' \<notin> set ''USER'' \<and> demo_lookupEnv ''USER'' = None \<and>
   awsKeyValuePairForEnv demo_lookupEnv [''FOO=bar'', ''USER'', ''HOME''] =
     Inl (Errorf ''missing environment variable %q'' [S ''USER''])"
  using
    awsKeyValuePairForEnv_resolves
      [where lookupEnv = demo_lookupEnv and wanted = "[''FOO=bar=baz'', ''HOME'']"]
    awsKeyValuePairForEnv_resolves
      [where lookupEnv = demo_lookupEnv and wanted = "[''FOO=bar'', ''USER'', ''HOME'']"]
  by (simp add: awsKeyValuePairForEnv_def awsKeyValuePairForEnv_loop.simps
        strings_SplitN_2_def demo_lookupEnv_def)

subsection \<open>Steps and sequencing\<close>

lemmas io_defs = bind_io_def return_io_def throw_def emit_def deref_def checked_def Let_def

text \<open>The definitions that evaluate a run on the example inputs.\<close>

lemmas run_defs =
  Run_def Run_join_def Run_describe_def Run_submit_def Run_register_def streamPrefix_of_def
  set_LogConfiguration_def new_RunTaskInput_def resolve_override_def awsKeyValuePairForEnv_def
  awsKeyValuePairForEnv_loop.simps strings_SplitN_2_def awsStrings_def spawn_watchers_def
  new_logWatcher_def logStreamName_def path_Base_def await_stopped_def finalize_def
  finish_container_def new_logWriter_def writeContainerFinishedMessage_def WriteString_io_def
  fmt_d_def digits10.simps join_def aggregate_def exit_check_def io_defs

lemmas demo_simps =
  demo_world_def demo_runner_def demo_task_def demo_container_def demo_lookupEnv_def
  demo_defs_def demo_defs2_def demo_accept_def demo_tasks_def

lemma bind_io_return [simp]: "bind_io (return_io x) f = f x"
  by (rule ext) (simp add: bind_io_def return_io_def)

lemma bind_io_throw [simp]: "bind_io (throw e) f = throw e"
  by (rule ext) (simp add: bind_io_def throw_def)

lemma bind_io_assoc: "bind_io (bind_io m f) g = bind_io m (\<lambda>x. bind_io (f x) g)"
  by (rule ext) (simp add: bind_io_def split: prod.splits sum.splits)

lemma bind_io_emit [simp]: "bind_io (emit e) f tr = f () (tr @ [e])"
  by (simp add: bind_io_def emit_def)

lemma bind_io_Inl: "m tr = (tr', Inl e) \<Longrightarrow> bind_io m f tr = (tr', Inl e)"
  by (simp add: bind_io_def)

lemma bind_io_Inr: "m tr = (tr', Inr x) \<Longrightarrow> bind_io m f tr = f x tr'"
  by (simp add: bind_io_def)

lemma deref_Some [simp]: "deref (Some v) = return_io v"
  by (simp add: deref_def)

lemma deref_None [simp]: "deref None = throw Panic"
  by (simp add: deref_def)

lemma checked_Inr [simp]: "checked (Inr v) = return_io v"
  by (simp add: checked_def)

lemma checked_Inl [simp]: "checked (Inl e) = throw (Failed (External e))"
  by (simp add: checked_def)

subsection \<open>path.Base\<close>

lemma path_Base_last_segment:
  assumes "CHR ''/'' \<notin> set seg" "seg \<noteq> []"
  shows "path_Base (dir @ ''/'' @ seg) = seg"
proof -
  from assms(2) obtain c cs where rs: "rev seg = c # cs"
    by (cases "rev seg") simp_all
  have "c \<in> set (rev seg)" unfolding rs by simp
  with assms(1) have c: "c \<noteq> CHR ''/''" by auto
  have tw: "takeWhile (\<lambda>c. c \<noteq> CHR ''/'') (rev seg @ CHR ''/'' # rev dir) = rev seg"
    using assms(1) by (intro takeWhile_until_sep) simp
  have "dropWhile (\<lambda>c. c = CHR ''/'') (rev (dir @ ''/'' @ seg)) = rev (dir @ ''/'' @ seg)"
    using rs c by simp
  then show ?thesis
    using tw assms(2) by (simp add: path_Base_def Let_def)
qed

subsection \<open>The log stream of a container\<close>

lemma logStreamName_eq:
  "Container.Name container = Some name \<Longrightarrow> TaskArn task = Some taskArn \<Longrightarrow>
   logStreamName pre container task tr =
     (tr, Inr (pre @ ''/'' @ name @ ''/'' @ path_Base taskArn))"
  by (simp add: logStreamName_def return_io_def)

subsection \<open>The watcher of a container and its Printer\<close>

lemma new_logWatcher_eq:
  "ContainerArn container = Some arn \<Longrightarrow> Container.Name container = Some name \<Longrightarrow>
   TaskArn task = Some taskArn \<Longrightarrow>
   new_logWatcher r pre task container tr =
     (tr, Inr \<lparr>logWatcher.LogGroupName = Runner.LogGroupName r,
               logWatcher.LogStreamName = pre @ ''/'' @ name @ ''/'' @ path_Base taskArn,
               containerId = path_Base arn\<rparr>)"
  by (simp add: new_logWatcher_def bind_io_Inr [OF logStreamName_eq] return_io_def)

lemma Printer_sentinel:
  "Message ev = Some message \<Longrightarrow>
   prefix (''Container '' @ cid @ '' exited with'') message \<Longrightarrow>
   Printer cid ev tr =
     (tr @ [LogPrintf ''Found container finished message for %s: %s'' [S cid, S message]],
      Inr False)"
  by (simp add: Printer_def strings_HasPrefix_def return_io_def)

lemma Printer_other:
  "Message ev = Some message \<Longrightarrow>
   \<not> prefix (''Container '' @ cid @ '' exited with'') message \<Longrightarrow>
   Printer cid ev tr = (tr @ [Println message], Inr True)"
  by (simp add: Printer_def strings_HasPrefix_def return_io_def)

text \<open>
  Claim C2. The watcher of a container carries a \<^verbatim>\<open>Printer\<close> bound to
  \<open>path.Base\<close> of the container's ARN, its short identifier. On a log event whose
  message begins with \<open>Container <shortContainerId> exited with\<close> the \<^verbatim>\<open>Printer\<close>
  returns false and prints nothing on standard output (it only logs that it found the
  finish message); on every other event it prints the message and returns true. So it
  returns false exactly for the events with that prefix.
\<close>

theorem Printer_stops_at_finish_message:
  assumes "ContainerArn container = Some arn" and "Container.Name container = Some name"
    and "TaskArn task = Some taskArn" and "Message ev = Some message"
  shows "\<exists>watcher.
           new_logWatcher r pre task container tr0 = (tr0, Inr watcher) \<and>
           containerId watcher = path_Base arn \<and>
           (prefix (''Container '' @ path_Base arn @ '' exited with'') message \<longrightarrow>
              Printer (containerId watcher) ev tr =
                (tr @ [LogPrintf ''Found container finished message for %s: %s''
                         [S (path_Base arn), S message]],
                 Inr False)) \<and>
           (\<not> prefix (''Container '' @ path_Base arn @ '' exited with'') message \<longrightarrow>
              Printer (containerId watcher) ev tr = (tr @ [Println message], Inr True)) \<and>
           (snd (Printer (containerId watcher) ev tr) = Inr False \<longleftrightarrow>
              prefix (''Container '' @ path_Base arn @ '' exited with'') message)"
proof -
  let ?watcher = "\<lparr>logWatcher.LogGroupName = Runner.LogGroupName r,
                   logWatcher.LogStreamName = pre @ ''/'' @ name @ ''/'' @ path_Base taskArn,
                   containerId = path_Base arn\<rparr>"
  have "new_logWatcher r pre task container tr0 = (tr0, Inr ?watcher)"
    using assms(1-3) by (rule new_logWatcher_eq)
  moreover have "snd (Printer (path_Base arn) ev tr) = Inr False \<longleftrightarrow>
      prefix (''Container '' @ path_Base arn @ '' exited with'') message"
    using Printer_sentinel [OF assms(4), of "path_Base arn" tr]
      Printer_other [OF assms(4), of "path_Base arn" tr]
    by (cases "prefix (''Container '' @ path_Base arn @ '' exited with'') message") simp_all
  ultimately show ?thesis
    using Printer_sentinel [OF assms(4), of "path_Base arn" tr]
      Printer_other [OF assms(4), of "path_Base arn" tr]
    by (intro exI [of _ ?watcher]) simp
qed

theorem Printer_stops_at_finish_message_witness:
  "new_logWatcher (demo_runner [] []) ''demo'' (demo_task [])
       (demo_container ''worker'' ''c1'' None) [] =
     ([], Inr \<lparr>logWatcher.LogGroupName = ''grp'', logWatcher.LogStreamName = ''demo/worker/t1'',
               containerId = ''c1''\<rparr>) \<and>
   Printer ''c1'' \<lparr>Message = Some ''Container c1 exited with 0''\<rparr> [] =
     ([LogPrintf ''Found container finished message for %s: %s''
         [S ''c1'', S ''Container c1 exited with 0'']], Inr False) \<and>
   Printer ''c1'' \<lparr>Message = Some ''Container c2 exited with 0''\<rparr> [] =
     ([Println ''Container c2 exited with 0''], Inr True)"
  using
    Printer_stops_at_finish_message
      [where container = "demo_container ''worker'' ''c1'' None" and task = "demo_task []"
         and name = "''worker''" and taskArn = "''arn:aws:ecs:eu-west-1:1:task/t1''"
         and arn = "''arn:aws:ecs:eu-west-1:1:container/c1''" and pre = "''demo''"
         and r = "demo_runner [] []" and tr0 = "[]" and tr = "[]"
         and ev = "\<lparr>Message = Some ''Container c1 exited with 0''\<rparr>"
         and message = "''Container c1 exited with 0''"]
    Printer_stops_at_finish_message
      [where container = "demo_container ''worker'' ''c1'' None" and task = "demo_task []"
         and name = "''worker''" and taskArn = "''arn:aws:ecs:eu-west-1:1:task/t1''"
         and arn = "''arn:aws:ecs:eu-west-1:1:container/c1''" and pre = "''demo''"
         and r = "demo_runner [] []" and tr0 = "[]" and tr = "[]"
         and ev = "\<lparr>Message = Some ''Container c2 exited with 0''\<rparr>"
         and message = "''Container c2 exited with 0''"]
  by (simp add: demo_container_def demo_task_def demo_runner_def path_Base_def
        new_logWatcher_def logStreamName_def Printer_def strings_HasPrefix_def io_defs)

subsection \<open>Overrides\<close>

lemma resolve_override_explicit:
  "Override.Command ov \<noteq> [] \<Longrightarrow> Override.Service ov \<noteq> [] \<Longrightarrow>
   resolve_override w r defs acc ov tr =
     (tr, case awsKeyValuePairForEnv (os_LookupEnv w) (Runner.Environment r) of
            Inl e \<Rightarrow> Inl (Failed e)
          | Inr env \<Rightarrow>
              Inr (acc @ [\<lparr>ContainerOverride.Command = map Some (Override.Command ov),
                            ContainerOverride.Name = Some (Override.Service ov),
                            ContainerOverride.Environment = env\<rparr>]))"
  by (simp add: resolve_override_def return_io_def throw_def split: sum.splits)

lemma resolve_override_no_command:
  "Override.Command ov = [] \<Longrightarrow> resolve_override w r defs acc ov tr = (tr, Inr acc)"
  by (simp add: resolve_override_def return_io_def)

lemma resolve_override_explicit_defs:
  "Override.Service ov \<noteq> [] \<Longrightarrow>
   resolve_override w r defs acc ov tr = resolve_override w r defs' acc ov tr"
  by (cases "Override.Command ov = []")
     (simp_all add: resolve_override_no_command resolve_override_explicit)

lemma resolve_overrides_explicit_defs:
  "\<forall>ov\<in>set ovs. Override.Service ov \<noteq> [] \<Longrightarrow>
   resolve_overrides w r defs ovs acc tr = resolve_overrides w r defs' ovs acc tr"
proof (induction ovs arbitrary: acc tr)
  case Nil
  then show ?case by simp
next
  case (Cons ov ovs)
  then have "resolve_override w r defs acc ov tr = resolve_override w r defs' acc ov tr"
    by (simp add: resolve_override_explicit_defs)
  with Cons show ?case by (simp split: prod.splits sum.splits)
qed

text \<open>
  Claim C9. An override with a non-empty command and an explicit target service is
  resolved without looking at the container definitions: its entry has the explicit
  service as name, the command, and the resolved environment, and resolving it against
  any two lists of container definitions (of any lengths) gives the same result. The
  same holds for the whole loop when every override names its target.
\<close>

theorem explicit_target_ignores_container_definitions:
  assumes "Override.Command ov \<noteq> []" and "Override.Service ov \<noteq> []"
  shows "resolve_override w r defs acc ov tr = resolve_override w r defs' acc ov tr \<and>
         resolve_override w r defs acc ov tr =
           (tr, case awsKeyValuePairForEnv (os_LookupEnv w) (Runner.Environment r) of
                  Inl e \<Rightarrow> Inl (Failed e)
                | Inr env \<Rightarrow>
                    Inr (acc @ [\<lparr>ContainerOverride.Command = map Some (Override.Command ov),
                                  ContainerOverride.Name = Some (Override.Service ov),
                                  ContainerOverride.Environment = env\<rparr>])) \<and>
         ((\<forall>ov'\<in>set ovs. Override.Service ov' \<noteq> []) \<longrightarrow>
            resolve_overrides w r defs ovs acc tr = resolve_overrides w r defs' ovs acc tr)"
  using assms resolve_override_explicit_defs [of ov w r defs acc tr defs']
    resolve_override_explicit [of ov w r defs acc tr]
    resolve_overrides_explicit_defs [of ovs w r defs acc tr defs']
  by blast

theorem explicit_target_ignores_container_definitions_witness:
  "resolve_override (demo_world [] [] (\<lambda>tr lw text. None)) (demo_runner [] [''FOO=bar'', ''HOME''])
     [] [] \<lparr>Override.Service = ''worker'', Override.Command = [''./migrate'']\<rparr> [] =
     ([], Inr [\<lparr>ContainerOverride.Command = [Some ''./migrate''],
                ContainerOverride.Name = Some ''worker'',
                ContainerOverride.Environment =
                  [\<lparr>KeyValuePair.Name = Some ''FOO'', Value = Some ''bar''\<rparr>,
                   \<lparr>KeyValuePair.Name = Some ''HOME'', Value = Some ''/root''\<rparr>]\<rparr>]) \<and>
   resolve_override (demo_world [] [] (\<lambda>tr lw text. None)) (demo_runner [] [''FOO=bar'', ''HOME''])
     [\<lparr>ContainerDefinition.Name = Some ''worker'', LogConfiguration = None\<rparr>,
      \<lparr>ContainerDefinition.Name = Some ''side'', LogConfiguration = None\<rparr>]
     [] \<lparr>Override.Service = ''worker'', Override.Command = [''./migrate'']\<rparr> [] =
   resolve_override (demo_world [] [] (\<lambda>tr lw text. None)) (demo_runner [] [''FOO=bar'', ''HOME''])
     [] [] \<lparr>Override.Service = ''worker'', Override.Command = [''./migrate'']\<rparr> []"
  using explicit_target_ignores_container_definitions
    [where ov = "\<lparr>Override.Service = ''worker'', Override.Command = [''./migrate'']\<rparr>"
       and w = "demo_world [] [] (\<lambda>tr lw text. None)"
       and r = "demo_runner [] [''FOO=bar'', ''HOME'']"
       and defs = "[\<lparr>ContainerDefinition.Name = Some ''worker'', LogConfiguration = None\<rparr>,
                    \<lparr>ContainerDefinition.Name = Some ''side'', LogConfiguration = None\<rparr>]"
       and defs' = "[]" and acc = "[]" and tr = "[]" and ovs = "[]"]
  by (simp add: demo_world_def demo_runner_def demo_lookupEnv_def resolve_override_def
        awsKeyValuePairForEnv_def awsKeyValuePairForEnv_loop.simps strings_SplitN_2_def io_defs)

subsection \<open>Which events a step emits\<close>

lemma emits_onlyI:
  "(\<And>tr. \<exists>d res. m tr = (tr @ d, res) \<and> list_all P d \<and> (\<forall>ee. res \<noteq> Inl (Exited ee))) \<Longrightarrow>
   emits_only P m"
  by (simp add: emits_only_def)

lemma emits_onlyD:
  "emits_only P m \<Longrightarrow>
   \<exists>d res. m tr = (tr @ d, res) \<and> list_all P d \<and> (\<forall>ee. res \<noteq> Inl (Exited ee))"
  by (simp add: emits_only_def)

lemma emits_only_mono:
  "emits_only P m \<Longrightarrow> (\<And>e. P e \<Longrightarrow> Q e) \<Longrightarrow> emits_only Q m"
  unfolding emits_only_def list_all_iff by meson

lemma emits_only_return [intro!, simp]: "emits_only P (return_io x)"
  by (simp add: emits_only_def return_io_def)

lemma emits_only_Failed [intro!, simp]: "emits_only P (throw (Failed e))"
  by (simp add: emits_only_def throw_def)

lemma emits_only_Panic [intro!, simp]: "emits_only P (throw Panic)"
  by (simp add: emits_only_def throw_def)

lemma emits_only_emit [intro!]: "P e \<Longrightarrow> emits_only P (emit e)"
  by (simp add: emits_only_def emit_def)

lemma emits_only_deref [intro!, simp]: "emits_only P (deref p)"
  by (cases p) simp_all

lemma emits_only_checked [intro!, simp]: "emits_only P (checked res)"
  by (cases res) simp_all

lemma emits_only_bind [intro!]:
  assumes "emits_only P m" and "\<And>x. emits_only P (f x)"
  shows "emits_only P (bind_io m f)"
proof (rule emits_onlyI)
  fix tr
  from emits_onlyD [OF assms(1), of tr] obtain d res
    where m: "m tr = (tr @ d, res)" "list_all P d" "\<forall>ee. res \<noteq> Inl (Exited ee)"
    by blast
  show "\<exists>d res. bind_io m f tr = (tr @ d, res) \<and> list_all P d \<and> (\<forall>ee. res \<noteq> Inl (Exited ee))"
  proof (cases res)
    case (Inl e)
    with m show ?thesis by (auto simp: bind_io_def)
  next
    case (Inr x)
    from emits_onlyD [OF assms(2), of x "tr @ d"] obtain d' res'
      where f: "f x (tr @ d) = ((tr @ d) @ d', res')" "list_all P d'"
        "\<forall>ee. res' \<noteq> Inl (Exited ee)"
      by blast
    with m Inr have "bind_io m f tr = (tr @ (d @ d'), res')" by (simp add: bind_io_def)
    with m f show ?thesis by (intro exI [of _ "d @ d'"] exI [of _ res']) simp
  qed
qed

lemma emits_only_for_each [intro!]:
  assumes "\<And>x. emits_only P (body x)"
  shows "emits_only P (for_each body xs)"
proof (rule emits_onlyI)
  fix tr
  show "\<exists>d res. for_each body xs tr = (tr @ d, res) \<and> list_all P d \<and>
          (\<forall>ee. res \<noteq> Inl (Exited ee))"
  proof (induction xs arbitrary: tr)
    case Nil
    show ?case by simp
  next
    case (Cons x xs)
    from emits_onlyD [OF assms, of x tr] obtain d res
      where b: "body x tr = (tr @ d, res)" "list_all P d" "\<forall>ee. res \<noteq> Inl (Exited ee)"
      by blast
    show ?case
    proof (cases res)
      case (Inl e)
      with b show ?thesis by auto
    next
      case (Inr u)
      from Cons [of "tr @ d"] obtain d' res'
        where r: "for_each body xs (tr @ d) = ((tr @ d) @ d', res')" "list_all P d'"
          "\<forall>ee. res' \<noteq> Inl (Exited ee)"
        by blast
      with b Inr have "for_each body (x # xs) tr = (tr @ (d @ d'), res')" by simp
      with b r show ?thesis by (intro exI [of _ "d @ d'"] exI [of _ res']) simp
    qed
  qed
qed

lemma emits_only_case_option [intro!]:
  "emits_only P m \<Longrightarrow> (\<And>x. emits_only P (f x)) \<Longrightarrow>
   emits_only P (case opt of None \<Rightarrow> m | Some x \<Rightarrow> f x)"
  by (cases opt) simp_all

lemma emits_only_case_sum [intro!]:
  "(\<And>x. emits_only P (f x)) \<Longrightarrow> (\<And>y. emits_only P (g y)) \<Longrightarrow>
   emits_only P (case s of Inl x \<Rightarrow> f x | Inr y \<Rightarrow> g y)"
  by (cases s) simp_all

lemma emits_only_case_prod [intro!]:
  "(\<And>a b. emits_only P (f a b)) \<Longrightarrow> emits_only P (case p of (a, b) \<Rightarrow> f a b)"
  by (cases p) simp

lemma emits_only_if [intro!]:
  "(c \<Longrightarrow> emits_only P m) \<Longrightarrow> (\<not> c \<Longrightarrow> emits_only P m') \<Longrightarrow>
   emits_only P (if c then m else m')"
  by simp

lemma logStreamName_emits [intro!, simp]: "emits_only P (logStreamName pre container task)"
  unfolding logStreamName_def by (intro emits_only_bind emits_only_deref emits_only_return)

lemma Run_register_emits: "emits_only is_setup (Run_register w r)"
  unfolding Run_register_def Let_def
  by (intro emits_only_bind emits_only_case_option emits_only_checked emits_only_deref
        emits_only_emit emits_only_return emits_only_Panic emits_only_Failed) simp_all

lemma resolve_override_emits: "emits_only is_setup (resolve_override w r defs acc ov)"
  unfolding resolve_override_def Let_def
  by (intro emits_only_if emits_only_bind emits_only_case_sum emits_only_deref
        emits_only_emit emits_only_return emits_only_Failed) simp_all

lemma resolve_overrides_emits: "emits_only is_setup (resolve_overrides w r defs ovs acc)"
proof (rule emits_onlyI)
  fix tr
  show "\<exists>d res. resolve_overrides w r defs ovs acc tr = (tr @ d, res) \<and>
          list_all is_setup d \<and> (\<forall>ee. res \<noteq> Inl (Exited ee))"
  proof (induction ovs arbitrary: acc tr)
    case Nil
    show ?case by simp
  next
    case (Cons ov ovs)
    from emits_onlyD [OF resolve_override_emits, of w r defs acc ov tr] obtain d res
      where b: "resolve_override w r defs acc ov tr = (tr @ d, res)" "list_all is_setup d"
        "\<forall>ee. res \<noteq> Inl (Exited ee)"
      by blast
    show ?case
    proof (cases res)
      case (Inl e)
      with b show ?thesis by auto
    next
      case (Inr acc')
      from Cons [of acc' "tr @ d"] obtain d' res'
        where r: "resolve_overrides w r defs ovs acc' (tr @ d) = ((tr @ d) @ d', res')"
          "list_all is_setup d'" "\<forall>ee. res' \<noteq> Inl (Exited ee)"
        by blast
      with b Inr have "resolve_overrides w r defs (ov # ovs) acc tr = (tr @ (d @ d'), res')"
        by simp
      with b r show ?thesis by (intro exI [of _ "d @ d'"] exI [of _ res']) simp
    qed
  qed
qed

lemma is_setup_early: "is_setup e \<Longrightarrow> is_early e"
  by (cases e) (simp_all add: is_early_def)

lemma Run_submit_emits: "emits_only is_early (Run_submit w r)"
  unfolding Run_submit_def Let_def
  by (intro emits_only_bind emits_only_case_prod emits_only_case_sum emits_only_emit
        emits_only_return emits_only_Failed
        emits_only_mono [OF Run_register_emits is_setup_early]
        emits_only_mono [OF resolve_overrides_emits is_setup_early])
     (simp_all add: is_early_def)

lemma spawn_watchers_emits: "emits_only is_early (spawn_watchers r pre tasks)"
  unfolding spawn_watchers_def new_logWatcher_def Let_def
  by (intro emits_only_for_each emits_only_bind emits_only_deref emits_only_emit
        emits_only_return logStreamName_emits)
     (simp_all add: is_early_def)

lemma await_stopped_emits: "emits_only is_early (await_stopped w r tasks)"
  unfolding await_stopped_def Let_def
  by (intro emits_only_for_each emits_only_bind emits_only_deref emits_only_emit
        emits_only_return emits_only_case_option emits_only_checked emits_only_Failed)
     (simp_all add: is_early_def)

lemma Run_describe_emits: "emits_only is_early (Run_describe w r)"
  unfolding Run_describe_def
  by (intro emits_only_bind emits_only_case_prod emits_only_return Run_submit_emits
        spawn_watchers_emits await_stopped_emits)

subsection \<open>Loops\<close>

lemma for_each_append:
  "for_each body (xs @ ys) tr =
     (case for_each body xs tr of
        (tr', Inl e) \<Rightarrow> (tr', Inl e)
      | (tr', Inr u) \<Rightarrow> for_each body ys tr')"
  by (induction xs arbitrary: tr) (auto split: prod.splits sum.splits)

lemma for_each_concat:
  "for_each (\<lambda>x. for_each body (sub x)) xs tr = for_each body (concat (map sub xs)) tr"
  by (induction xs arbitrary: tr) (auto simp: for_each_append split: prod.splits sum.splits)

lemma for_each_Inr:
  "for_each body xs tr = (tr', Inr u) \<Longrightarrow> x \<in> set xs \<Longrightarrow>
   \<exists>t t'. body x t = (t', Inr ())"
proof (induction xs arbitrary: tr)
  case Nil
  then show ?case by simp
next
  case (Cons y ys)
  then show ?case by (auto split: prod.splits sum.splits)
qed

lemma for_each_skip:
  "\<forall>x\<in>set xs. \<forall>t. body x t = (t, Inr ()) \<Longrightarrow>
   for_each body (xs @ ys) tr = for_each body ys tr"
  by (induction xs) simp_all

lemma for_each_length:
  "for_each body xs tr = (tr', Inr u) \<Longrightarrow>
   (\<And>x t t'. body x t = (t', Inr ()) \<Longrightarrow> length t' = Suc (length t)) \<Longrightarrow>
   length tr' = length tr + length xs"
proof (induction xs arbitrary: tr)
  case Nil
  then show ?case by simp
next
  case (Cons y ys)
  from Cons.prems(1) obtain t where y: "body y tr = (t, Inr ())"
    and rest: "for_each body ys t = (tr', Inr u)"
    by (auto split: prod.splits sum.splits)
  from Cons.IH [OF rest Cons.prems(2)] Cons.prems(2) [OF y] show ?case by simp
qed

subsection \<open>The finish message\<close>

lemma new_logWriter_eq:
  "Container.Name container = Some name \<Longrightarrow> TaskArn task = Some taskArn \<Longrightarrow>
   new_logWriter r pre task container tr =
     (tr, Inr \<lparr>logWriter.LogGroupName = Runner.LogGroupName r,
               logWriter.LogStreamName = pre @ ''/'' @ name @ ''/'' @ path_Base taskArn\<rparr>)"
  by (simp add: new_logWriter_def bind_io_Inr [OF logStreamName_eq] return_io_def)

lemma writeContainerFinishedMessage_not_stopped:
  "LastStatus container = Some status \<Longrightarrow> status \<noteq> ''STOPPED'' \<Longrightarrow>
   writeContainerFinishedMessage w lw task container tr =
     (tr, Inl (Failed (Errorf ''expected container to be STOPPED, got %s'' [S status])))"
  by (simp add: writeContainerFinishedMessage_def throw_def)

lemma writeContainerFinishedMessage_no_exit_code:
  "LastStatus container = Some ''STOPPED'' \<Longrightarrow> ExitCode container = None \<Longrightarrow>
   Reason container = Some reason \<Longrightarrow>
   writeContainerFinishedMessage w lw task container tr =
     (tr, Inl (Failed (errors_New reason)))"
  by (simp add: writeContainerFinishedMessage_def throw_def)

lemma writeContainerFinishedMessage_writes:
  "LastStatus container = Some ''STOPPED'' \<Longrightarrow> ExitCode container = Some code \<Longrightarrow>
   ContainerArn container = Some arn \<Longrightarrow>
   writeContainerFinishedMessage w lw task container tr =
     (tr @ [WriteString lw
              (''Container '' @ path_Base arn @ '' exited with '' @ fmt_d (sint code))],
      case w_WriteString w tr lw
             (''Container '' @ path_Base arn @ '' exited with '' @ fmt_d (sint code)) of
        None \<Rightarrow> Inr ()
      | Some e \<Rightarrow> Inl (Failed (External e)))"
  by (simp add: writeContainerFinishedMessage_def WriteString_io_def)

lemma writeContainerFinishedMessage_Inr:
  assumes "writeContainerFinishedMessage w lw task container tr = (tr', Inr u)"
  shows "\<exists>code arn text. LastStatus container = Some ''STOPPED'' \<and>
           ExitCode container = Some code \<and> ContainerArn container = Some arn \<and>
           tr' = tr @ [WriteString lw text] \<and> w_WriteString w tr lw text = None"
proof -
  from assms obtain status where s: "LastStatus container = Some status"
    by (cases "LastStatus container") (auto simp: writeContainerFinishedMessage_def throw_def)
  with assms have st: "status = ''STOPPED''"
    by (auto simp: writeContainerFinishedMessage_def throw_def split: if_splits)
  from assms s st obtain code where c: "ExitCode container = Some code"
    by (cases "ExitCode container"; cases "Reason container")
       (auto simp: writeContainerFinishedMessage_def throw_def)
  from assms s st c obtain arn where a: "ContainerArn container = Some arn"
    by (cases "ContainerArn container") (auto simp: writeContainerFinishedMessage_def throw_def)
  from assms show ?thesis
    unfolding writeContainerFinishedMessage_writes [OF s [unfolded st] c a]
    using s st c a by (auto split: option.splits)
qed

lemma finish_container_Inr:
  assumes "finish_container w r pre task container tr = (tr', Inr u)"
  shows "\<exists>code name lw text. ExitCode container = Some code \<and>
           Container.Name container = Some name \<and>
           tr' = tr @ [WriteString lw text] \<and> w_WriteString w tr lw text = None"
proof -
  from assms obtain lw t where lw: "new_logWriter r pre task container tr = (t, Inr lw)"
    and wr: "writeContainerFinishedMessage w lw task container t = (tr', Inr u)"
    by (auto simp: finish_container_def bind_io_def split: prod.splits sum.splits)
  from lw obtain name where n: "Container.Name container = Some name"
    by (cases "Container.Name container")
       (auto simp: new_logWriter_def logStreamName_def bind_io_def throw_def)
  from lw have "t = tr"
    by (auto simp: new_logWriter_def logStreamName_def bind_io_def throw_def return_io_def
          deref_def split: option.splits prod.splits sum.splits)
  with writeContainerFinishedMessage_Inr [OF wr] n show ?thesis by blast
qed

subsection \<open>Finalizing: the writes and their answers\<close>

lemma writes_checked_Nil [simp]: "writes_checked w tr [] res"
  by (simp add: writes_checked_def)

lemma writes_checked_append:
  assumes "writes_checked w tr d1 (Inr x)" and "writes_checked w (tr @ d1) d2 res"
  shows "writes_checked w tr (d1 @ d2) res"
  unfolding writes_checked_def
proof (intro allI impI, elim conjE)
  fix pre lw msg post e
  assume eq: "d1 @ d2 = pre @ WriteString lw msg # post"
    and ans: "w_WriteString w (tr @ pre) lw msg = Some e"
  from eq consider
    (left) us where "d1 = pre @ us" "us @ d2 = WriteString lw msg # post"
  | (right) us where "d1 @ us = pre" "d2 = us @ WriteString lw msg # post"
    by (auto simp: append_eq_append_conv2)
  then show "post = [] \<and> res = Inl (Failed (External e))"
  proof cases
    case left
    show ?thesis
    proof (cases us)
      case Nil
      with left have "d2 = [] @ WriteString lw msg # post" "tr @ pre = (tr @ d1) @ []"
        by simp_all
      with assms(2) ans show ?thesis unfolding writes_checked_def by metis
    next
      case (Cons u us')
      with left have "d1 = pre @ WriteString lw msg # us'" by simp
      with assms(1) ans have "Inr x = (Inl (Failed (External e)) :: failure + 'a)"
        unfolding writes_checked_def by blast
      then show ?thesis by simp
    qed
  next
    case right
    then have "tr @ pre = (tr @ d1) @ us" by auto
    with assms(2) ans right(2) show ?thesis unfolding writes_checked_def by metis
  qed
qed

lemma finalizesI:
  "(\<And>tr. \<exists>d res. m tr = (tr @ d, res) \<and> list_all is_WriteString d \<and>
          (\<forall>ee. res \<noteq> Inl (Exited ee)) \<and> writes_checked w tr d res) \<Longrightarrow>
   finalizes w m"
  by (simp add: finalizes_def)

lemma finalizesD:
  "finalizes w m \<Longrightarrow>
   \<exists>d res. m tr = (tr @ d, res) \<and> list_all is_WriteString d \<and>
     (\<forall>ee. res \<noteq> Inl (Exited ee)) \<and> writes_checked w tr d res"
  by (simp add: finalizes_def)

lemma finalizes_silent:
  "emits_only (\<lambda>e. False) m \<Longrightarrow> finalizes w m"
proof (rule finalizesI)
  fix tr
  assume "emits_only (\<lambda>e. False) m"
  from emits_onlyD [OF this, of tr] obtain d res
    where "m tr = (tr @ d, res)" "list_all (\<lambda>e. False) d" "\<forall>ee. res \<noteq> Inl (Exited ee)"
    by blast
  moreover from this(2) have "d = []" by (cases d) simp_all
  ultimately show "\<exists>d res. m tr = (tr @ d, res) \<and> list_all is_WriteString d \<and>
          (\<forall>ee. res \<noteq> Inl (Exited ee)) \<and> writes_checked w tr d res"
    by (intro exI [of _ "[]"] exI [of _ res]) simp
qed

lemma finalizes_WriteString_io: "finalizes w (WriteString_io w lw text)"
proof (rule finalizesI)
  fix tr
  have "writes_checked w tr [WriteString lw text]
          (case w_WriteString w tr lw text of None \<Rightarrow> Inr ()
           | Some e \<Rightarrow> Inl (Failed (External e)))"
    by (auto simp: writes_checked_def Cons_eq_append_conv)
  then show "\<exists>d res. WriteString_io w lw text tr = (tr @ d, res) \<and> list_all is_WriteString d \<and>
          (\<forall>ee. res \<noteq> Inl (Exited ee)) \<and> writes_checked w tr d res"
    by (intro exI [of _ "[WriteString lw text]"]) (auto simp: WriteString_io_def split: option.splits)
qed

lemma finalizes_bind:
  assumes "finalizes w m" and "\<And>x. finalizes w (f x)"
  shows "finalizes w (bind_io m f)"
proof (rule finalizesI)
  fix tr
  from finalizesD [OF assms(1), of tr] obtain d res
    where m: "m tr = (tr @ d, res)" "list_all is_WriteString d"
      "\<forall>ee. res \<noteq> Inl (Exited ee)" "writes_checked w tr d res"
    by blast
  show "\<exists>d res. bind_io m f tr = (tr @ d, res) \<and> list_all is_WriteString d \<and>
          (\<forall>ee. res \<noteq> Inl (Exited ee)) \<and> writes_checked w tr d res"
  proof (cases res)
    case (Inl e)
    with m have "bind_io m f tr = (tr @ d, Inl e)" "writes_checked w tr d (Inl e)"
      by (simp_all add: bind_io_def writes_checked_def)
    with m Inl show ?thesis by (intro exI [of _ d] exI [of _ "Inl e"]) simp
  next
    case (Inr x)
    from finalizesD [OF assms(2), of x "tr @ d"] obtain d' res'
      where f: "f x (tr @ d) = ((tr @ d) @ d', res')" "list_all is_WriteString d'"
        "\<forall>ee. res' \<noteq> Inl (Exited ee)" "writes_checked w (tr @ d) d' res'"
      by blast
    from m Inr f have "bind_io m f tr = (tr @ (d @ d'), res')" by (simp add: bind_io_def)
    moreover from m(4) Inr f(4) have "writes_checked w tr (d @ d') res'"
      by (simp add: writes_checked_append)
    ultimately show ?thesis
      using m f by (intro exI [of _ "d @ d'"] exI [of _ res']) simp
  qed
qed

lemma finalizes_for_each:
  assumes "\<And>x. finalizes w (body x)"
  shows "finalizes w (for_each body xs)"
proof (rule finalizesI)
  fix tr
  show "\<exists>d res. for_each body xs tr = (tr @ d, res) \<and> list_all is_WriteString d \<and>
          (\<forall>ee. res \<noteq> Inl (Exited ee)) \<and> writes_checked w tr d res"
  proof (induction xs arbitrary: tr)
    case Nil
    show ?case by (intro exI [of _ "[]"] exI [of _ "Inr ()"]) simp
  next
    case (Cons x xs)
    from finalizesD [OF assms, of x tr] obtain d res
      where b: "body x tr = (tr @ d, res)" "list_all is_WriteString d"
        "\<forall>ee. res \<noteq> Inl (Exited ee)" "writes_checked w tr d res"
      by blast
    show ?case
    proof (cases res)
      case (Inl e)
      with b have "for_each body (x # xs) tr = (tr @ d, Inl e)"
        "writes_checked w tr d (Inl e :: failure + unit)"
        by (simp_all add: writes_checked_def)
      with b Inl show ?thesis by (intro exI [of _ d] exI [of _ "Inl e"]) simp
    next
      case (Inr u)
      from Cons [of "tr @ d"] obtain d' res'
        where r: "for_each body xs (tr @ d) = ((tr @ d) @ d', res')"
          "list_all is_WriteString d'" "\<forall>ee. res' \<noteq> Inl (Exited ee)"
          "writes_checked w (tr @ d) d' res'"
        by blast
      from b Inr r have "for_each body (x # xs) tr = (tr @ (d @ d'), res')" by simp
      moreover from b(4) Inr r(4) have "writes_checked w tr (d @ d') res'"
        by (simp add: writes_checked_append)
      ultimately show ?thesis
        using b r by (intro exI [of _ "d @ d'"] exI [of _ res']) simp
    qed
  qed
qed

lemma writeContainerFinishedMessage_finalizes:
  "finalizes w (writeContainerFinishedMessage w lw task container)"
proof -
  have "finalizes w
          (case ExitCode container of
             None \<Rightarrow> bind_io (deref (Reason container)) (\<lambda>reason. throw (Failed (errors_New reason)))
           | Some code \<Rightarrow>
               bind_io (deref (ContainerArn container)) (\<lambda>arn.
               WriteString_io w lw
                 (''Container '' @ path_Base arn @ '' exited with '' @ fmt_d (sint code))))"
  proof (cases "ExitCode container")
    case None
    then show ?thesis
      by (auto intro!: finalizes_silent)
  next
    case (Some code)
    then show ?thesis
      by (simp del: append.simps)
         (intro finalizes_bind finalizes_WriteString_io finalizes_silent emits_only_deref)
  qed
  then show ?thesis
    unfolding writeContainerFinishedMessage_def
  proof (intro finalizes_bind)
    show "finalizes w (deref (LastStatus container))"
      by (intro finalizes_silent emits_only_deref)
  next
    fix lastStatus
    assume inner: "finalizes w
          (case ExitCode container of
             None \<Rightarrow> bind_io (deref (Reason container)) (\<lambda>reason. throw (Failed (errors_New reason)))
           | Some code \<Rightarrow>
               bind_io (deref (ContainerArn container)) (\<lambda>arn.
               WriteString_io w lw
                 (''Container '' @ path_Base arn @ '' exited with '' @ fmt_d (sint code))))"
    have "finalizes w (throw (Failed (Errorf ''expected container to be STOPPED, got %s''
            [S lastStatus])) :: unit io)"
      by (intro finalizes_silent emits_only_Failed)
    with inner show "finalizes w
          (if lastStatus \<noteq> ''STOPPED''
           then throw (Failed (Errorf ''expected container to be STOPPED, got %s''
                  [S lastStatus]))
           else case ExitCode container of
             None \<Rightarrow> bind_io (deref (Reason container)) (\<lambda>reason. throw (Failed (errors_New reason)))
           | Some code \<Rightarrow>
               bind_io (deref (ContainerArn container)) (\<lambda>arn.
               WriteString_io w lw
                 (''Container '' @ path_Base arn @ '' exited with '' @ fmt_d (sint code))))"
      by (cases "lastStatus = ''STOPPED''") simp_all
  qed
qed

lemma finish_container_finalizes: "finalizes w (finish_container w r pre task container)"
  unfolding finish_container_def new_logWriter_def
  by (intro finalizes_bind writeContainerFinishedMessage_finalizes finalizes_silent
        emits_only_bind logStreamName_emits emits_only_return)

lemma finalize_finalizes: "finalizes w (finalize w r pre tasks)"
  unfolding finalize_def
  by (intro finalizes_for_each finish_container_finalizes)

lemma finalize_Inr:
  assumes "finalize w r pre tasks tr = (tr', Inr u)"
    and "task \<in> set tasks" and "container \<in> set (Containers task)"
  shows "\<exists>code name. ExitCode container = Some code \<and> Container.Name container = Some name"
proof -
  from for_each_Inr [OF assms(1) [unfolded finalize_def] assms(2)] obtain t t'
    where "for_each (finish_container w r pre task) (Containers task) t = (t', Inr ())"
    by blast
  from for_each_Inr [OF this assms(3)] obtain s s'
    where "finish_container w r pre task container s = (s', Inr ())"
    by blast
  from finish_container_Inr [OF this] show ?thesis by blast
qed

lemma for_each_map: "for_each body (map f xs) tr = for_each (\<lambda>x. body (f x)) xs tr"
  by (induction xs arbitrary: tr) (auto split: prod.splits sum.splits)

lemma finalize_flat:
  "finalize w r pre tasks tr =
     for_each (\<lambda>(task, container). finish_container w r pre task container)
       (concat (map (\<lambda>task. map (Pair task) (Containers task)) tasks)) tr"
proof -
  have "for_each (finish_container w r pre task) (Containers task) =
        for_each (\<lambda>(task, container). finish_container w r pre task container)
          (map (Pair task) (Containers task))" for task
    by (rule ext) (simp add: for_each_map)
  then show ?thesis
    by (simp add: finalize_def for_each_concat [symmetric])
qed

lemma finalize_length:
  assumes "finalize w r pre tasks tr = (tr', Inr u)"
  shows "length tr' = length tr + length (concat (map Containers tasks))"
proof -
  have "length (concat (map (\<lambda>task. map (Pair task) (Containers task)) tasks)) =
        length (concat (map Containers tasks))"
    by (induction tasks) simp_all
  moreover have "length tr' =
      length tr + length (concat (map (\<lambda>task. map (Pair task) (Containers task)) tasks))"
    using assms [unfolded finalize_flat]
    by (rule for_each_length) (auto dest: finish_container_Inr)
  ultimately show ?thesis by simp
qed

subsection \<open>Aggregation\<close>

lemma exit_check_zero: "ExitCode container = Some 0 \<Longrightarrow> exit_check container tr = (tr, Inr ())"
  by (simp add: exit_check_def return_io_def)

lemma exit_check_nonzero:
  "ExitCode container = Some code \<Longrightarrow> code \<noteq> 0 \<Longrightarrow> Container.Name container = Some name \<Longrightarrow>
   exit_check container tr =
     (tr, Inl (Exited \<lparr>error = Errorf ''container %s exited with %d'' [S name, D (sint code)],
                      exitCode = code\<rparr>))"
  by (simp add: exit_check_def throw_def)

lemma exit_check_silent: "fst (exit_check container tr) = tr"
  by (cases "ExitCode container"; cases "Container.Name container")
     (simp_all add: exit_check_def throw_def return_io_def)

lemma exit_check_no_panic:
  "ExitCode container \<noteq> None \<Longrightarrow> Container.Name container \<noteq> None \<Longrightarrow>
   snd (exit_check container tr) \<noteq> Inl Panic"
  by (cases "ExitCode container"; cases "Container.Name container")
     (simp_all add: exit_check_def throw_def return_io_def)

lemma aggregate_flat:
  "aggregate tasks tr = for_each exit_check (concat (map Containers tasks)) tr"
  by (simp add: aggregate_def for_each_concat)

lemma for_each_exit_check_silent: "fst (for_each exit_check cs tr) = tr"
proof (induction cs)
  case Nil
  show ?case by simp
next
  case (Cons c cs)
  obtain res where "exit_check c tr = (tr, res)"
    using exit_check_silent [of c tr] by (cases "exit_check c tr") simp
  with Cons show ?case by (cases res) simp_all
qed

lemma aggregate_silent: "fst (aggregate tasks tr) = tr"
  by (simp add: aggregate_flat for_each_exit_check_silent)

lemma for_each_exit_check_all_zero:
  "\<forall>c\<in>set cs. ExitCode c = Some 0 \<Longrightarrow> for_each exit_check cs tr = (tr, Inr ())"
  by (induction cs) (simp_all add: exit_check_zero)

lemma for_each_exit_check_first_nonzero:
  assumes "\<forall>x\<in>set pre. ExitCode x = Some 0"
    and "ExitCode c = Some code" and "code \<noteq> 0" and "Container.Name c = Some name"
  shows "for_each exit_check (pre @ c # post) tr =
     (tr, Inl (Exited \<lparr>error = Errorf ''container %s exited with %d'' [S name, D (sint code)],
                      exitCode = code\<rparr>))"
proof -
  have "for_each exit_check (pre @ c # post) tr = for_each exit_check (c # post) tr"
    using assms(1) by (intro for_each_skip) (simp add: exit_check_zero)
  then show ?thesis by (simp add: exit_check_nonzero [OF assms(2-4)])
qed

lemma for_each_exit_check_no_panic:
  "\<forall>c\<in>set cs. ExitCode c \<noteq> None \<and> Container.Name c \<noteq> None \<Longrightarrow>
   snd (for_each exit_check cs tr) \<noteq> Inl Panic"
proof (induction cs)
  case Nil
  show ?case by simp
next
  case (Cons c cs)
  obtain res where c: "exit_check c tr = (tr, res)"
    using exit_check_silent [of c tr] by (cases "exit_check c tr") simp
  with exit_check_no_panic [of c tr] Cons.prems have "res \<noteq> Inl Panic" by simp
  with c Cons show ?case by (cases res) simp_all
qed

subsection \<open>The run in its steps\<close>

lemma Run_join_Inr:
  assumes "Run_join w r tr = (tr', Inr described)"
  shows "\<exists>pre t0 t1. Run_describe w r tr = (t0, Inr (pre, described)) \<and>
           finalize w r pre described t0 = (t1, Inr ()) \<and>
           tr' = t1 @ [LogPrintf ''Waiting for logs to finish'' [], WgWait]"
  using assms
  by (auto simp: Run_join_def join_def bind_io_def emit_def return_io_def
        split: prod.splits sum.splits)

lemma Run_join_described:
  assumes "Run_join w r tr = (tr', Inr described)"
    and "container \<in> set (concat (map Containers described))"
  shows "\<exists>code name. ExitCode container = Some code \<and> Container.Name container = Some name"
proof -
  from Run_join_Inr [OF assms(1)] obtain pre t0 t1
    where "finalize w r pre described t0 = (t1, Inr ())"
    by blast
  moreover from assms(2) obtain task
    where "task \<in> set described" "container \<in> set (Containers task)"
    by auto
  ultimately show ?thesis by (rule finalize_Inr)
qed

lemma Run_after_join:
  "Run_join w r tr = (tr', Inr described) \<Longrightarrow>
   Run w r tr = for_each exit_check (concat (map Containers described)) tr'"
  by (simp add: Run_def bind_io_def aggregate_flat)

text \<open>
  Claim C1. When \<^verbatim>\<open>Run\<close> reaches the aggregation, that is when everything up to and
  including the join has succeeded and has left the described tasks, it goes through
  the containers of the tasks in order. If every exit code is zero it returns nil. At
  the first container whose exit code is not zero it returns an \<^verbatim>\<open>exitError\<close> whose
  \<^verbatim>\<open>ExitCode()\<close> is the exit code of that container, whatever the containers after it
  hold.
\<close>

theorem Run_returns_first_nonzero_exit_code:
  assumes "Run_join w r [] = (tr, Inr described)"
  shows "((\<forall>c\<in>set (concat (map Containers described)). ExitCode c = Some 0) \<longrightarrow>
            Run w r [] = (tr, Inr ())) \<and>
         (\<forall>pre c post.
            concat (map Containers described) = pre @ c # post \<and>
            (\<forall>x\<in>set pre. ExitCode x = Some 0) \<and> ExitCode c \<noteq> Some 0 \<longrightarrow>
            (\<exists>code name ee.
               ExitCode c = Some code \<and> Container.Name c = Some name \<and>
               ee = \<lparr>error = Errorf ''container %s exited with %d'' [S name, D (sint code)],
                     exitCode = code\<rparr> \<and>
               Run w r [] = (tr, Inl (Exited ee)) \<and>
               exitError_ExitCode ee = code))"
proof (intro conjI allI impI)
  assume "\<forall>c\<in>set (concat (map Containers described)). ExitCode c = Some 0"
  then show "Run w r [] = (tr, Inr ())"
    unfolding Run_after_join [OF assms] by (rule for_each_exit_check_all_zero)
next
  fix pre c post
  assume a: "concat (map Containers described) = pre @ c # post \<and>
            (\<forall>x\<in>set pre. ExitCode x = Some 0) \<and> ExitCode c \<noteq> Some 0"
  then have "c \<in> set (concat (map Containers described))" by simp
  from Run_join_described [OF assms this] obtain code name
    where c: "ExitCode c = Some code" "Container.Name c = Some name"
    by blast
  with a have "code \<noteq> 0" by simp
  with a c have "Run w r [] =
     (tr, Inl (Exited \<lparr>error = Errorf ''container %s exited with %d'' [S name, D (sint code)],
                      exitCode = code\<rparr>))"
    unfolding Run_after_join [OF assms] by (simp add: for_each_exit_check_first_nonzero)
  with c show "\<exists>code name ee.
               ExitCode c = Some code \<and> Container.Name c = Some name \<and>
               ee = \<lparr>error = Errorf ''container %s exited with %d'' [S name, D (sint code)],
                     exitCode = code\<rparr> \<and>
               Run w r [] = (tr, Inl (Exited ee)) \<and>
               exitError_ExitCode ee = code"
    by (simp add: exitError_ExitCode_def)
qed

theorem Run_returns_first_nonzero_exit_code_witness:
  "snd (Run_join (demo_world demo_defs (demo_tasks [Some 0, Some 0, Some 5, Some 0]) demo_accept)
          (demo_runner [] []) []) = Inr (demo_tasks [Some 0, Some 0, Some 5, Some 0]) \<and>
   snd (Run (demo_world demo_defs (demo_tasks [Some 0, Some 0, Some 5, Some 0]) demo_accept)
          (demo_runner [] []) []) =
     Inl (Exited \<lparr>error = Errorf ''container %s exited with %d'' [S ''db'', D 5],
                  exitCode = 5\<rparr>) \<and>
   snd (Run_join (demo_world demo_defs (demo_tasks [Some 0, Some 0, Some 0, Some 0]) demo_accept)
          (demo_runner [] []) []) = Inr (demo_tasks [Some 0, Some 0, Some 0, Some 0]) \<and>
   snd (Run (demo_world demo_defs (demo_tasks [Some 0, Some 0, Some 0, Some 0]) demo_accept)
          (demo_runner [] []) []) = Inr ()"
proof -
  let ?r = "demo_runner [] []"
  let ?w5 = "demo_world demo_defs (demo_tasks [Some 0, Some 0, Some 5, Some 0]) demo_accept"
  let ?w0 = "demo_world demo_defs (demo_tasks [Some 0, Some 0, Some 0, Some 0]) demo_accept"
  have j5: "Run_join ?w5 ?r [] =
      (fst (Run_join ?w5 ?r []), Inr (demo_tasks [Some 0, Some 0, Some 5, Some 0]))"
    by (simp add: run_defs demo_simps)
  have j0: "Run_join ?w0 ?r [] =
      (fst (Run_join ?w0 ?r []), Inr (demo_tasks [Some 0, Some 0, Some 0, Some 0]))"
    by (simp add: run_defs demo_simps)
  have "\<exists>code name ee.
      ExitCode (demo_container ''db'' ''c3'' (Some 5)) = Some code \<and>
      Container.Name (demo_container ''db'' ''c3'' (Some 5)) = Some name \<and>
      ee = \<lparr>error = Errorf ''container %s exited with %d'' [S name, D (sint code)],
            exitCode = code\<rparr> \<and>
      Run ?w5 ?r [] = (fst (Run_join ?w5 ?r []), Inl (Exited ee)) \<and>
      exitError_ExitCode ee = code"
    using Run_returns_first_nonzero_exit_code [OF j5, THEN conjunct2, rule_format,
        of "[demo_container ''worker'' ''c1'' (Some 0), demo_container ''side'' ''c2'' (Some 0)]"
           "demo_container ''db'' ''c3'' (Some 5)"
           "[demo_container ''cache'' ''c4'' (Some 0)]"]
    by (simp add: demo_tasks_def demo_task_def demo_container_def)
  then have r5: "snd (Run ?w5 ?r []) =
     Inl (Exited \<lparr>error = Errorf ''container %s exited with %d'' [S ''db'', D 5],
                  exitCode = 5\<rparr>)"
    by (auto simp: demo_container_def)
  have r0: "Run ?w0 ?r [] = (fst (Run_join ?w0 ?r []), Inr ())"
    using Run_returns_first_nonzero_exit_code [OF j0, THEN conjunct1]
    by (simp add: demo_tasks_def demo_task_def demo_container_def)
  from j5 j0 r5 r0 show ?thesis by (metis snd_conv)
qed

subsection \<open>A container without exit code\<close>

lemma finalize_fails_without_exit_code:
  assumes "task \<in> set tasks" and "container \<in> set (Containers task)"
    and "ExitCode container = None"
  shows "\<exists>d f. finalize w r pre tasks tr = (tr @ d, Inl f) \<and> list_all is_WriteString d \<and>
           (\<forall>ee. f \<noteq> Exited ee)"
proof -
  from finalizesD [OF finalize_finalizes, of w r pre tasks tr] obtain d res
    where f: "finalize w r pre tasks tr = (tr @ d, res)" "list_all is_WriteString d"
      "\<forall>ee. res \<noteq> Inl (Exited ee)"
    by blast
  show ?thesis
  proof (cases res)
    case (Inl f')
    with f show ?thesis by auto
  next
    case (Inr u)
    with f(1) finalize_Inr [OF _ assms(1,2)] assms(3) show ?thesis by fastforce
  qed
qed

lemma Run_describe_Inr:
  assumes "Run_describe w r [] = (tr0, Inr (pre, described))"
  shows "list_all is_early tr0"
  using emits_onlyD [OF Run_describe_emits, of w r "[]"] assms by auto

lemma Run_finalize_Inl:
  assumes "Run_describe w r tr = (tr0, Inr (pre, described))"
    and "finalize w r pre described tr0 = (tr1, Inl f)"
  shows "Run w r tr = (tr1, Inl f)"
  using assms by (simp add: Run_def Run_join_def bind_io_def)

text \<open>
  Claim C10. In every run that reaches the aggregation, every container of the described
  tasks has an exit code, so the aggregation loop, which dereferences it without a test,
  does not panic (nor does it on the container's name). The reason is the finalizing
  loop before it, over the same described tasks: it fails as soon as a container has no
  exit code.
\<close>

theorem aggregation_dereferences_exit_codes_safely:
  assumes "Run_join w r [] = (tr, Inr described)"
  shows "(\<forall>task\<in>set described. \<forall>container\<in>set (Containers task). ExitCode container \<noteq> None) \<and>
         snd (aggregate described tr) \<noteq> Inl Panic \<and>
         Run w r [] = aggregate described tr \<and>
         (\<forall>pre tasks t.
            (\<exists>task\<in>set tasks. \<exists>container\<in>set (Containers task). ExitCode container = None) \<longrightarrow>
            (\<exists>t' f. finalize w r pre tasks t = (t', Inl f)))"
proof (intro conjI)
  have all: "\<exists>code name. ExitCode container = Some code \<and> Container.Name container = Some name"
    if "container \<in> set (concat (map Containers described))" for container
    using assms that by (rule Run_join_described)
  show "\<forall>task\<in>set described. \<forall>container\<in>set (Containers task). ExitCode container \<noteq> None"
  proof (intro ballI)
    fix task container
    assume "task \<in> set described" "container \<in> set (Containers task)"
    then have "container \<in> set (concat (map Containers described))" by auto
    from all [OF this] show "ExitCode container \<noteq> None" by auto
  qed
  have "\<forall>c\<in>set (concat (map Containers described)).
          ExitCode c \<noteq> None \<and> Container.Name c \<noteq> None"
    using all by fastforce
  then show "snd (aggregate described tr) \<noteq> Inl Panic"
    unfolding aggregate_flat by (rule for_each_exit_check_no_panic)
  show "Run w r [] = aggregate described tr"
    using assms by (simp add: Run_def bind_io_def)
  show "\<forall>pre tasks t.
            (\<exists>task\<in>set tasks. \<exists>container\<in>set (Containers task). ExitCode container = None) \<longrightarrow>
            (\<exists>t' f. finalize w r pre tasks t = (t', Inl f))"
    using finalize_fails_without_exit_code by blast
qed

theorem aggregation_dereferences_exit_codes_safely_witness:
  "snd (Run_join (demo_world demo_defs (demo_tasks [Some 0, Some 0, Some 5, Some 0]) demo_accept)
          (demo_runner [] []) []) = Inr (demo_tasks [Some 0, Some 0, Some 5, Some 0]) \<and>
   snd (Run (demo_world demo_defs (demo_tasks [Some 0, Some 0, Some 5, Some 0]) demo_accept)
          (demo_runner [] []) []) \<noteq> Inl Panic \<and>
   snd (finalize (demo_world demo_defs [] demo_accept) (demo_runner [] []) ''demo''
          (demo_tasks [Some 0, None, Some 5, Some 0]) []) =
     Inl (Failed (errors_New ''OutOfMemoryError''))"
proof -
  let ?r = "demo_runner [] []"
  let ?w = "demo_world demo_defs (demo_tasks [Some 0, Some 0, Some 5, Some 0]) demo_accept"
  have j: "Run_join ?w ?r [] =
      (fst (Run_join ?w ?r []), Inr (demo_tasks [Some 0, Some 0, Some 5, Some 0]))"
    by (simp add: run_defs demo_simps)
  from aggregation_dereferences_exit_codes_safely [OF j]
  have "snd (Run ?w ?r []) \<noteq> Inl Panic" by simp
  moreover have "snd (finalize (demo_world demo_defs [] demo_accept) ?r ''demo''
          (demo_tasks [Some 0, None, Some 5, Some 0]) []) =
     Inl (Failed (errors_New ''OutOfMemoryError''))"
    by (simp add: run_defs demo_simps)
  ultimately show ?thesis using j by (metis snd_conv)
qed

text \<open>
  Claim C3. \<^verbatim>\<open>writeContainerFinishedMessage\<close> returns an error when the container's last
  status is not \<^verbatim>\<open>STOPPED\<close>. For a stopped container without exit code it returns the
  container's stop reason as the error and writes nothing. For a stopped container with
  an exit code it makes exactly one write, of the text
  \<open>Container <shortContainerId> exited with <exitCode>\<close>, and returns what the writer
  answers. In a run that has described its tasks, a container without exit code makes
  the run fail while finalizing: the run returns neither nil nor an \<^verbatim>\<open>exitError\<close>, and
  it never reaches the join.
\<close>

theorem writeContainerFinishedMessage_contract:
  "(\<forall>status. LastStatus container = Some status \<and> status \<noteq> ''STOPPED'' \<longrightarrow>
      writeContainerFinishedMessage w lw task container tr =
        (tr, Inl (Failed (Errorf ''expected container to be STOPPED, got %s'' [S status])))) \<and>
   (\<forall>reason. LastStatus container = Some ''STOPPED'' \<and> ExitCode container = None \<and>
      Reason container = Some reason \<longrightarrow>
      writeContainerFinishedMessage w lw task container tr =
        (tr, Inl (Failed (errors_New reason)))) \<and>
   (\<forall>code arn. LastStatus container = Some ''STOPPED'' \<and> ExitCode container = Some code \<and>
      ContainerArn container = Some arn \<longrightarrow>
      writeContainerFinishedMessage w lw task container tr =
        (tr @ [WriteString lw
                 (''Container '' @ path_Base arn @ '' exited with '' @ fmt_d (sint code))],
         case w_WriteString w tr lw
                (''Container '' @ path_Base arn @ '' exited with '' @ fmt_d (sint code)) of
           None \<Rightarrow> Inr ()
         | Some e \<Rightarrow> Inl (Failed (External e)))) \<and>
   (\<forall>tr0 pre described.
      Run_describe w r [] = (tr0, Inr (pre, described)) \<and>
      (\<exists>t\<in>set described. \<exists>c\<in>set (Containers t). ExitCode c = None) \<longrightarrow>
      (\<exists>tr' f. Run w r [] = (tr', Inl f) \<and> (\<forall>ee. f \<noteq> Exited ee) \<and> WgWait \<notin> set tr'))"
proof (intro conjI allI impI)
  fix status
  assume "LastStatus container = Some status \<and> status \<noteq> ''STOPPED''"
  then show "writeContainerFinishedMessage w lw task container tr =
        (tr, Inl (Failed (Errorf ''expected container to be STOPPED, got %s'' [S status])))"
    by (simp add: writeContainerFinishedMessage_not_stopped)
next
  fix reason
  assume "LastStatus container = Some ''STOPPED'' \<and> ExitCode container = None \<and>
      Reason container = Some reason"
  then show "writeContainerFinishedMessage w lw task container tr =
        (tr, Inl (Failed (errors_New reason)))"
    by (simp add: writeContainerFinishedMessage_no_exit_code)
next
  fix code arn
  assume "LastStatus container = Some ''STOPPED'' \<and> ExitCode container = Some code \<and>
      ContainerArn container = Some arn"
  then show "writeContainerFinishedMessage w lw task container tr =
        (tr @ [WriteString lw
                 (''Container '' @ path_Base arn @ '' exited with '' @ fmt_d (sint code))],
         case w_WriteString w tr lw
                (''Container '' @ path_Base arn @ '' exited with '' @ fmt_d (sint code)) of
           None \<Rightarrow> Inr ()
         | Some e \<Rightarrow> Inl (Failed (External e)))"
    by (intro writeContainerFinishedMessage_writes) simp_all
next
  fix tr0 pre described
  assume a: "Run_describe w r [] = (tr0, Inr (pre, described)) \<and>
      (\<exists>t\<in>set described. \<exists>c\<in>set (Containers t). ExitCode c = None)"
  then obtain t c where "t \<in> set described" "c \<in> set (Containers t)" "ExitCode c = None"
    by blast
  from finalize_fails_without_exit_code [OF this, of w r pre tr0] obtain d f
    where f: "finalize w r pre described tr0 = (tr0 @ d, Inl f)" "list_all is_WriteString d"
      "\<forall>ee. f \<noteq> Exited ee"
    by blast
  from a have "list_all is_early tr0" by (auto dest: Run_describe_Inr)
  with f(2) have "WgWait \<notin> set (tr0 @ d)"
    by (auto simp: list_all_iff is_early_def)
  moreover from a f(1) have "Run w r [] = (tr0 @ d, Inl f)"
    by (auto intro: Run_finalize_Inl)
  ultimately show "\<exists>tr' f. Run w r [] = (tr', Inl f) \<and> (\<forall>ee. f \<noteq> Exited ee) \<and> WgWait \<notin> set tr'"
    using f(3) by blast
qed

theorem writeContainerFinishedMessage_contract_witness:
  "writeContainerFinishedMessage (demo_world demo_defs [] demo_accept)
       \<lparr>logWriter.LogGroupName = ''grp'', logWriter.LogStreamName = ''demo/worker/t1''\<rparr>
       (demo_task []) ((demo_container ''worker'' ''c1'' None)\<lparr>LastStatus := Some ''RUNNING''\<rparr>) [] =
     ([], Inl (Failed (Errorf ''expected container to be STOPPED, got %s'' [S ''RUNNING'']))) \<and>
   writeContainerFinishedMessage (demo_world demo_defs [] demo_accept)
       \<lparr>logWriter.LogGroupName = ''grp'', logWriter.LogStreamName = ''demo/worker/t1''\<rparr>
       (demo_task []) (demo_container ''worker'' ''c1'' None) [] =
     ([], Inl (Failed (errors_New ''OutOfMemoryError''))) \<and>
   writeContainerFinishedMessage (demo_world demo_defs [] demo_accept)
       \<lparr>logWriter.LogGroupName = ''grp'', logWriter.LogStreamName = ''demo/worker/t1''\<rparr>
       (demo_task []) (demo_container ''worker'' ''c1'' (Some 3)) [] =
     ([WriteString \<lparr>logWriter.LogGroupName = ''grp'', logWriter.LogStreamName = ''demo/worker/t1''\<rparr>
         ''Container c1 exited with 3''], Inr ()) \<and>
   snd (Run (demo_world demo_defs (demo_tasks [Some 0, None, Some 5, Some 0]) demo_accept)
          (demo_runner [] []) []) = Inl (Failed (errors_New ''OutOfMemoryError'')) \<and>
   WgWait \<notin> set (fst (Run (demo_world demo_defs (demo_tasks [Some 0, None, Some 5, Some 0])
                              demo_accept) (demo_runner [] []) []))"
proof -
  let ?w = "demo_world demo_defs [] demo_accept"
  let ?lw = "\<lparr>logWriter.LogGroupName = ''grp'', logWriter.LogStreamName = ''demo/worker/t1''\<rparr>"
  let ?wn = "demo_world demo_defs (demo_tasks [Some 0, None, Some 5, Some 0]) demo_accept"
  let ?r = "demo_runner [] []"
  have 1: "writeContainerFinishedMessage ?w ?lw (demo_task [])
       ((demo_container ''worker'' ''c1'' None)\<lparr>LastStatus := Some ''RUNNING''\<rparr>) [] =
     ([], Inl (Failed (Errorf ''expected container to be STOPPED, got %s'' [S ''RUNNING''])))"
    using writeContainerFinishedMessage_contract
      [where container = "(demo_container ''worker'' ''c1'' None)\<lparr>LastStatus := Some ''RUNNING''\<rparr>"
         and w = ?w and lw = ?lw and task = "demo_task []" and tr = "[]",
       THEN conjunct1, rule_format, of "''RUNNING''"]
    by (simp add: demo_container_def)
  have 2: "writeContainerFinishedMessage ?w ?lw (demo_task [])
       (demo_container ''worker'' ''c1'' None) [] =
     ([], Inl (Failed (errors_New ''OutOfMemoryError'')))"
    using writeContainerFinishedMessage_contract
      [where container = "demo_container ''worker'' ''c1'' None"
         and w = ?w and lw = ?lw and task = "demo_task []" and tr = "[]",
       THEN conjunct2, THEN conjunct1, rule_format, of "''OutOfMemoryError''"]
    by (simp add: demo_container_def)
  have 3: "writeContainerFinishedMessage ?w ?lw (demo_task [])
       (demo_container ''worker'' ''c1'' (Some 3)) [] =
     ([WriteString ?lw ''Container c1 exited with 3''], Inr ())"
    using writeContainerFinishedMessage_contract
      [where container = "demo_container ''worker'' ''c1'' (Some 3)"
         and w = ?w and lw = ?lw and task = "demo_task []" and tr = "[]",
       THEN conjunct2, THEN conjunct2, THEN conjunct1, rule_format,
       of 3 "''arn:aws:ecs:eu-west-1:1:container/c1''"]
    by (simp add: demo_container_def demo_world_def demo_accept_def path_Base_def fmt_d_def
          digits10.simps)
  have d: "Run_describe ?wn ?r [] =
      (fst (Run_describe ?wn ?r []), Inr (''demo'', demo_tasks [Some 0, None, Some 5, Some 0]))"
    by (simp add: run_defs demo_simps)
  have "\<exists>tr' f. Run ?wn ?r [] = (tr', Inl f) \<and> (\<forall>ee. f \<noteq> Exited ee) \<and> WgWait \<notin> set tr'"
    using writeContainerFinishedMessage_contract
      [where w = ?wn and r = ?r,
       THEN conjunct2, THEN conjunct2, THEN conjunct2, rule_format,
       of "fst (Run_describe ?wn ?r [])" "''demo''" "demo_tasks [Some 0, None, Some 5, Some 0]"]
      d
    by (simp add: demo_tasks_def demo_task_def demo_container_def)
  then have 4: "WgWait \<notin> set (fst (Run ?wn ?r []))" by auto
  have 5: "snd (Run ?wn ?r []) = Inl (Failed (errors_New ''OutOfMemoryError''))"
    by (simp add: run_defs demo_simps)
  from 1 2 3 4 5 show ?thesis by simp
qed

subsection \<open>The order of finalizing, join and aggregation\<close>

lemma split_after_prefix:
  assumes "list_all P xs" and "\<not> P e" and "xs @ ys = t @ e # t'"
  shows "\<exists>t2. t = xs @ t2 \<and> ys = t2 @ e # t'"
proof -
  from assms(3) consider
    (left) us where "xs = t @ us" "us @ ys = e # t'"
  | (right) us where "xs @ us = t" "ys = us @ e # t'"
    by (auto simp: append_eq_append_conv2)
  then show ?thesis
  proof cases
    case left
    show ?thesis
    proof (cases us)
      case Nil
      with left show ?thesis by simp
    next
      case (Cons u us')
      with left have "e \<in> set xs" by simp
      with assms(1,2) show ?thesis by (simp add: list_all_iff)
    qed
  next
    case right
    then show ?thesis by auto
  qed
qed

lemma Run_describe_Inl:
  "Run_describe w r tr = (tr0, Inl f) \<Longrightarrow> Run w r tr = (tr0, Inl f)"
  by (simp add: Run_def Run_join_def bind_io_def)

lemma Run_finalize_Inr:
  assumes "Run_describe w r tr = (tr0, Inr (pre, described))"
    and "finalize w r pre described tr0 = (tr1, Inr ())"
  shows "Run_join w r tr =
           (tr1 @ [LogPrintf ''Waiting for logs to finish'' [], WgWait], Inr described)"
  using assms by (simp add: Run_join_def join_def bind_io_def emit_def return_io_def)

lemma split_before_suffix:
  assumes "e \<notin> set zs" and "ys @ zs = t @ e # t'"
  shows "\<exists>t3. ys = t @ e # t3 \<and> t' = t3 @ zs"
proof -
  from assms(2) consider
    (left) us where "ys = t @ us" "us @ zs = e # t'"
  | (right) us where "ys @ us = t" "zs = us @ e # t'"
    by (auto simp: append_eq_append_conv2)
  then show ?thesis
  proof cases
    case left
    show ?thesis
    proof (cases us)
      case Nil
      with left assms(1) show ?thesis by auto
    next
      case (Cons u us')
      with left show ?thesis by simp
    qed
  next
    case right
    with assms(1) show ?thesis by simp
  qed
qed

lemma early_not_write: "list_all is_early xs \<Longrightarrow> filter is_WriteString xs = []"
  by (induction xs) (simp_all add: is_early_def)

lemma early_no_join: "list_all is_early xs \<Longrightarrow> WgWait \<notin> set xs"
  by (auto simp: list_all_iff is_early_def)

lemma writes_no_join: "list_all is_WriteString xs \<Longrightarrow> WgWait \<notin> set xs"
  by (auto simp: list_all_iff)

lemma writes_filter: "list_all is_WriteString xs \<Longrightarrow> filter is_WriteString xs = xs"
  by (induction xs) simp_all

text \<open>
  The events of a run: first those before finalizing, then the writes of the finish
  messages; either the run fails there, or every write has succeeded and the join
  follows, after which the aggregation gives the result without a further event.
\<close>

lemma Run_cases:
  obtains
    (failed) before writes f where
      "list_all is_early before" "list_all is_WriteString writes"
      "Run w r [] = (before @ writes, Inl f)" "\<forall>ee. f \<noteq> Exited ee"
      "\<And>t lw msg t' e. writes = t @ WriteString lw msg # t' \<Longrightarrow>
         w_WriteString w (before @ t) lw msg = Some e \<Longrightarrow> t' = [] \<and> f = Failed (External e)"
  | (joined) before writes pre described where
      "list_all is_early before" "list_all is_WriteString writes"
      "Run_describe w r [] = (before, Inr (pre, described))"
      "finalize w r pre described before = (before @ writes, Inr ())"
      "length writes = length (concat (map Containers described))"
      "\<And>t lw msg t'. writes = t @ WriteString lw msg # t' \<Longrightarrow>
         w_WriteString w (before @ t) lw msg = None"
      "Run w r [] =
         aggregate described
           (before @ writes @ [LogPrintf ''Waiting for logs to finish'' [], WgWait])"
      "fst (Run w r []) =
         before @ writes @ [LogPrintf ''Waiting for logs to finish'' [], WgWait]"
proof -
  from emits_onlyD [OF Run_describe_emits, of w r "[]"] obtain d0 res0
    where d0: "Run_describe w r [] = (d0, res0)" "list_all is_early d0"
      "\<forall>ee. res0 \<noteq> Inl (Exited ee)"
    by auto
  show thesis
  proof (cases res0)
    case (Inl f)
    with d0 have "Run w r [] = (d0 @ [], Inl f)" "\<forall>ee. f \<noteq> Exited ee"
      by (auto intro: Run_describe_Inl)
    with d0(2) show thesis
      by (intro failed [of d0 "[]" f]) simp_all
  next
    case (Inr p)
    obtain pre described where p: "p = (pre, described)" by (cases p)
    from finalizesD [OF finalize_finalizes, of w r pre described d0] obtain dF resF
      where dF: "finalize w r pre described d0 = (d0 @ dF, resF)" "list_all is_WriteString dF"
        "\<forall>ee. resF \<noteq> Inl (Exited ee)" "writes_checked w d0 dF resF"
      by blast
    from d0 \<open>res0 = Inr p\<close> p have desc: "Run_describe w r [] = (d0, Inr (pre, described))"
      by simp
    show thesis
    proof (cases resF)
      case (Inl f)
      with desc dF have run: "Run w r [] = (d0 @ dF, Inl f)" and f: "\<forall>ee. f \<noteq> Exited ee"
        by (auto intro: Run_finalize_Inl)
      have "t' = [] \<and> f = Failed (External e)"
        if "dF = t @ WriteString lw msg # t'" "w_WriteString w (d0 @ t) lw msg = Some e"
        for t lw msg t' e
        using dF(4) Inl that unfolding writes_checked_def by blast
      with d0(2) dF(2) run f show thesis
        by (intro failed [of d0 dF f]) blast+
    next
      case (Inr u)
      with dF have fin: "finalize w r pre described d0 = (d0 @ dF, Inr ())" by simp
      from Run_finalize_Inr [OF desc fin]
      have run: "Run w r [] =
          aggregate described (d0 @ dF @ [LogPrintf ''Waiting for logs to finish'' [], WgWait])"
        by (simp add: Run_def bind_io_def)
      have len: "length dF = length (concat (map Containers described))"
        using finalize_length [OF fin] by simp
      have ok: "w_WriteString w (d0 @ t) lw msg = None"
        if "dF = t @ WriteString lw msg # t'" for t lw msg t'
        using dF(4) Inr that unfolding writes_checked_def
        by (cases "w_WriteString w (d0 @ t) lw msg") blast+
      from run have "fst (Run w r []) =
          d0 @ dF @ [LogPrintf ''Waiting for logs to finish'' [], WgWait]"
        by (simp add: aggregate_silent)
      with d0(2) dF(2) desc fin len ok run show thesis
        by (intro joined [of d0 dF pre described]) blast+
    qed
  qed
qed

text \<open>
  Claim C8. In the events of any run of \<^verbatim>\<open>Run\<close>: every write of a finish message comes
  before the join; the join, when it is reached, is the last event, comes after one
  write for each container of each described task, and the result of the run is then
  the result of the aggregation, which starts from the events ending with the join; the
  run returns nil or an \<^verbatim>\<open>exitError\<close>, the outcomes of the aggregation, only after the
  join. A write that the log writer answers with an error is the last event of the run,
  and the run returns that error: there is no join and no aggregation after it.
\<close>

theorem finalizing_precedes_join_precedes_aggregation:
  assumes "Run w r [] = (tr, res)"
  shows "(\<forall>i j. i < length tr \<and> j < length tr \<and> is_WriteString (tr ! i) \<and> tr ! j = WgWait \<longrightarrow>
            i < j) \<and>
         (WgWait \<in> set tr \<longrightarrow>
            (\<exists>t pre described.
               Run_describe w r [] = (t, Inr (pre, described)) \<and>
               length (filter is_WriteString tr) = length (concat (map Containers described)) \<and>
               last tr = WgWait \<and> WgWait \<notin> set (butlast tr) \<and>
               aggregate described tr = (tr, res))) \<and>
         (res = Inr () \<or> (\<exists>ee. res = Inl (Exited ee)) \<longrightarrow> WgWait \<in> set tr) \<and>
         (\<forall>t lw msg t' e.
            tr = t @ WriteString lw msg # t' \<and> w_WriteString w t lw msg = Some e \<longrightarrow>
            t' = [] \<and> res = Inl (Failed (External e)))"
proof (cases rule: Run_cases [of w r])
  case (failed before writes f)
  note early = failed(1) and wr = failed(2) and run = failed(3) and f = failed(4)
    and failed_write = failed(5)
  have nojoin: "WgWait \<notin> set (before @ writes)"
    using early_no_join [OF early] writes_no_join [OF wr] by simp
  from run assms have tr: "tr = before @ writes" and res: "res = Inl f" by simp_all
  have 1: "\<forall>i j. i < length tr \<and> j < length tr \<and> is_WriteString (tr ! i) \<and> tr ! j = WgWait \<longrightarrow>
          i < j"
    using nojoin unfolding tr by (metis nth_mem)
  have 4: "\<forall>t lw msg t' e.
          tr = t @ WriteString lw msg # t' \<and> w_WriteString w t lw msg = Some e \<longrightarrow>
          t' = [] \<and> res = Inl (Failed (External e))"
  proof (intro allI impI, elim conjE)
    fix t lw msg t' e
    assume eq: "tr = t @ WriteString lw msg # t'" and ans: "w_WriteString w t lw msg = Some e"
    have "\<not> is_early (WriteString lw msg)" by (simp add: is_early_def)
    from split_after_prefix [OF early this eq [unfolded tr]] obtain t2
      where "t = before @ t2" "writes = t2 @ WriteString lw msg # t'"
      by blast
    with failed_write [of t2 lw msg t' e] ans res
    show "t' = [] \<and> res = Inl (Failed (External e))" by blast
  qed
  have 2: "WgWait \<notin> set tr" using nojoin unfolding tr .
  have 3: "\<not> (res = Inr () \<or> (\<exists>ee. res = Inl (Exited ee)))"
    using f unfolding res by simp
  show ?thesis
  proof (intro conjI)
    show "\<forall>i j. i < length tr \<and> j < length tr \<and> is_WriteString (tr ! i) \<and> tr ! j = WgWait \<longrightarrow>
          i < j"
      by (rule 1)
    show "WgWait \<in> set tr \<longrightarrow>
          (\<exists>t pre described.
             Run_describe w r [] = (t, Inr (pre, described)) \<and>
             length (filter is_WriteString tr) = length (concat (map Containers described)) \<and>
             last tr = WgWait \<and> WgWait \<notin> set (butlast tr) \<and>
             aggregate described tr = (tr, res))"
      using 2 by (intro impI) (erule notE)
    show "res = Inr () \<or> (\<exists>ee. res = Inl (Exited ee)) \<longrightarrow> WgWait \<in> set tr"
      using 3 by (intro impI) (erule notE)
    show "\<forall>t lw msg t' e.
          tr = t @ WriteString lw msg # t' \<and> w_WriteString w t lw msg = Some e \<longrightarrow>
          t' = [] \<and> res = Inl (Failed (External e))"
      by (rule 4)
  qed
next
  case (joined before writes pre described)
  note early = joined(1) and wr = joined(2) and desc = joined(3) and len = joined(5)
    and ok = joined(6) and run = joined(7) and fst = joined(8)
  have nojoin: "WgWait \<notin> set (before @ writes)"
    using early_no_join [OF early] writes_no_join [OF wr] by simp
  let ?L = "LogPrintf ''Waiting for logs to finish'' []"
  from fst assms have tr: "tr = (before @ writes) @ [?L, WgWait]" by simp
  define n where "n = length (before @ writes)"
  have nth_low: "tr ! k \<in> set (before @ writes)" if "k < n" for k
  proof -
    from that have "tr ! k = (before @ writes) ! k"
      unfolding tr n_def by (rule nth_append_left)
    with that show ?thesis unfolding n_def by (metis nth_mem)
  qed
  have nth_n: "tr ! n = ?L" and nth_Suc: "tr ! Suc n = WgWait" and lentr: "length tr = Suc (Suc n)"
    unfolding tr n_def by (simp_all add: nth_append)
  have low_no_join: "tr ! k \<noteq> WgWait" if "k < n" for k
    using nth_low [OF that] nojoin by metis
  have 1: "\<forall>i j. i < length tr \<and> j < length tr \<and> is_WriteString (tr ! i) \<and> tr ! j = WgWait \<longrightarrow>
          i < j"
  proof (intro allI impI, elim conjE)
    fix i j
    assume i: "i < length tr" and j: "j < length tr"
      and wi: "is_WriteString (tr ! i)" and wj: "tr ! j = WgWait"
    from j lentr consider "j < n" | "j = n" | "j = Suc n" by linarith
    then have "j = Suc n"
      using low_no_join wj nth_n by cases auto
    moreover from i lentr consider "i < n" | "i = n" | "i = Suc n" by linarith
    then have "i < n"
      using wi nth_n nth_Suc by cases auto
    ultimately show "i < j" by simp
  qed
  have filt: "filter is_WriteString tr = writes"
    unfolding tr by (simp add: early_not_write [OF early] writes_filter [OF wr])
  have 2: "\<exists>t pre described.
             Run_describe w r [] = (t, Inr (pre, described)) \<and>
             length (filter is_WriteString tr) = length (concat (map Containers described)) \<and>
             last tr = WgWait \<and> WgWait \<notin> set (butlast tr) \<and>
             aggregate described tr = (tr, res)"
  proof (intro exI [of _ before] exI [of _ pre] exI [of _ described] conjI)
    show "Run_describe w r [] = (before, Inr (pre, described))" by (rule desc)
    show "length (filter is_WriteString tr) = length (concat (map Containers described))"
      using filt len by simp
    show "last tr = WgWait" unfolding tr by simp
    have "butlast tr = before @ writes @ [?L]" unfolding tr by (simp add: butlast_append)
    with nojoin show "WgWait \<notin> set (butlast tr)" by simp
    show "aggregate described tr = (tr, res)"
      using run assms unfolding tr by simp
  qed
  have 3: "WgWait \<in> set tr" unfolding tr by simp
  have 4: "\<forall>t lw msg t' e.
          tr = t @ WriteString lw msg # t' \<and> w_WriteString w t lw msg = Some e \<longrightarrow>
          t' = [] \<and> res = Inl (Failed (External e))"
  proof (intro allI impI, elim conjE)
    fix t lw msg t' e
    assume eq: "tr = t @ WriteString lw msg # t'" and ans: "w_WriteString w t lw msg = Some e"
    have "\<not> is_early (WriteString lw msg)" by (simp add: is_early_def)
    from eq have "before @ (writes @ [?L, WgWait]) = t @ WriteString lw msg # t'"
      unfolding tr by simp
    from split_after_prefix [OF early \<open>\<not> is_early (WriteString lw msg)\<close> this] obtain t2
      where t2: "t = before @ t2" "writes @ [?L, WgWait] = t2 @ WriteString lw msg # t'"
      by blast
    have "WriteString lw msg \<notin> set [?L, WgWait]" by simp
    from split_before_suffix [OF this t2(2)] obtain t3
      where "writes = t2 @ WriteString lw msg # t3"
      by blast
    from ok [OF this] t2(1) have "w_WriteString w t lw msg = None" by simp
    with ans show "t' = [] \<and> res = Inl (Failed (External e))" by simp
  qed
  show ?thesis
  proof (intro conjI)
    show "\<forall>i j. i < length tr \<and> j < length tr \<and> is_WriteString (tr ! i) \<and> tr ! j = WgWait \<longrightarrow>
          i < j"
      by (rule 1)
    show "WgWait \<in> set tr \<longrightarrow>
          (\<exists>t pre described.
             Run_describe w r [] = (t, Inr (pre, described)) \<and>
             length (filter is_WriteString tr) = length (concat (map Containers described)) \<and>
             last tr = WgWait \<and> WgWait \<notin> set (butlast tr) \<and>
             aggregate described tr = (tr, res))"
      using 2 by (intro impI)
    show "res = Inr () \<or> (\<exists>ee. res = Inl (Exited ee)) \<longrightarrow> WgWait \<in> set tr"
      using 3 by (intro impI)
    show "\<forall>t lw msg t' e.
          tr = t @ WriteString lw msg # t' \<and> w_WriteString w t lw msg = Some e \<longrightarrow>
          t' = [] \<and> res = Inl (Failed (External e))"
      by (rule 4)
  qed
qed

theorem finalizing_precedes_join_precedes_aggregation_witness:
  "last (fst (Run (demo_world demo_defs (demo_tasks [Some 0, Some 0, Some 5, Some 0]) demo_accept)
                (demo_runner [] []) [])) = WgWait \<and>
   demo_reject
     (butlast (fst (Run (demo_world demo_defs (demo_tasks [Some 0, Some 0, Some 5, Some 0])
                           demo_reject) (demo_runner [] []) [])))
     \<lparr>logWriter.LogGroupName = ''grp'', logWriter.LogStreamName = ''demo/side/t1''\<rparr>
     ''Container c2 exited with 0'' = Some ''ThrottlingException'' \<and>
   snd (Run (demo_world demo_defs (demo_tasks [Some 0, Some 0, Some 5, Some 0]) demo_reject)
          (demo_runner [] []) []) = Inl (Failed (External ''ThrottlingException'')) \<and>
   last (fst (Run (demo_world demo_defs (demo_tasks [Some 0, Some 0, Some 5, Some 0]) demo_reject)
                (demo_runner [] []) [])) =
     WriteString \<lparr>logWriter.LogGroupName = ''grp'', logWriter.LogStreamName = ''demo/side/t1''\<rparr>
       ''Container c2 exited with 0''"
proof -
  let ?r = "demo_runner [] []"
  let ?w = "demo_world demo_defs (demo_tasks [Some 0, Some 0, Some 5, Some 0]) demo_accept"
  let ?wf = "demo_world demo_defs (demo_tasks [Some 0, Some 0, Some 5, Some 0]) demo_reject"
  let ?lw = "\<lparr>logWriter.LogGroupName = ''grp'', logWriter.LogStreamName = ''demo/side/t1''\<rparr>"
  have run: "Run ?w ?r [] =
      (fst (Run ?w ?r []),
       Inl (Exited \<lparr>error = Errorf ''container %s exited with %d'' [S ''db'', D 5],
                    exitCode = 5\<rparr>))"
    by (simp add: run_defs demo_simps)
  note ok = finalizing_precedes_join_precedes_aggregation [OF run]
  from ok have "WgWait \<in> set (fst (Run ?w ?r []))" by blast
  with ok have 1: "last (fst (Run ?w ?r [])) = WgWait" by blast
  have runf: "Run ?wf ?r [] = (fst (Run ?wf ?r []), snd (Run ?wf ?r []))" by simp
  have tr: "fst (Run ?wf ?r []) =
      butlast (fst (Run ?wf ?r [])) @ WriteString ?lw ''Container c2 exited with 0'' # []"
    by (simp add: run_defs demo_simps demo_reject_def)
  have ans: "w_WriteString ?wf (butlast (fst (Run ?wf ?r []))) ?lw ''Container c2 exited with 0''
      = Some ''ThrottlingException''"
    by (simp add: demo_world_def demo_reject_def)
  from finalizing_precedes_join_precedes_aggregation [OF runf, THEN conjunct2, THEN conjunct2,
      THEN conjunct2, rule_format, of "butlast (fst (Run ?wf ?r []))" ?lw
      "''Container c2 exited with 0''" "[]" "''ThrottlingException''"] tr ans
  have 2: "snd (Run ?wf ?r []) = Inl (Failed (External ''ThrottlingException''))" by blast
  from tr have 3: "last (fst (Run ?wf ?r [])) = WriteString ?lw ''Container c2 exited with 0''"
    by (metis last_snoc)
  from ans have 4: "demo_reject (butlast (fst (Run ?wf ?r []))) ?lw ''Container c2 exited with 0''
      = Some ''ThrottlingException''"
    by (simp add: demo_world_def)
  from 1 2 3 4 show ?thesis by simp
qed

subsection \<open>Overrides without a target, and the environment list\<close>


lemma resolve_override_default:
  "Override.Command ov \<noteq> [] \<Longrightarrow> Override.Service ov = [] \<Longrightarrow> defs = [d] \<Longrightarrow>
   ContainerDefinition.Name d = Some name \<Longrightarrow>
   resolve_override w r defs acc ov tr =
     (tr @ [LogPrintf (''Assuming override applies to '' @ [CHR 0x27] @ ''%s'' @ [CHR 0x27])
              [S name]],
      case awsKeyValuePairForEnv (os_LookupEnv w) (Runner.Environment r) of
        Inl e \<Rightarrow> Inl (Failed e)
      | Inr env \<Rightarrow>
          Inr (acc @ [\<lparr>ContainerOverride.Command = map Some (Override.Command ov),
                        ContainerOverride.Name = Some name,
                        ContainerOverride.Environment = env\<rparr>]))"
  by (simp add: resolve_override_def io_defs split: sum.splits)

lemma resolve_overrides_append:
  "resolve_overrides w r defs (xs @ ys) acc tr =
     (case resolve_overrides w r defs xs acc tr of
        (tr', Inl e) \<Rightarrow> (tr', Inl e)
      | (tr', Inr acc') \<Rightarrow> resolve_overrides w r defs ys acc' tr')"
  by (induction xs arbitrary: acc tr) (auto split: prod.splits sum.splits)

lemma resolve_overrides_no_command:
  "\<forall>ov\<in>set ovs. Override.Command ov = [] \<Longrightarrow>
   resolve_overrides w r defs ovs acc tr = (tr, Inr acc)"
  by (induction ovs) (simp_all add: resolve_override_no_command)

lemma awsKeyValuePairForEnv_Inl:
  "awsKeyValuePairForEnv lookupEnv wanted = Inl e \<Longrightarrow>
   \<exists>K\<in>set wanted. CHR ''='' \<notin> set K \<and> lookupEnv K = None \<and>
      e = Errorf ''missing environment variable %q'' [S K]"
  unfolding awsKeyValuePairForEnv_def by (rule loop_Inl)

lemma awsKeyValuePairForEnv_missing:
  "K \<in> set wanted \<Longrightarrow> CHR ''='' \<notin> set K \<Longrightarrow> lookupEnv K = None \<Longrightarrow>
   \<exists>e. awsKeyValuePairForEnv lookupEnv wanted = Inl e"
  unfolding awsKeyValuePairForEnv_def by (rule loop_missing)

lemma Run_resolve_Inl:
  assumes "Run_register w r tr = (tr0, Inr (pre, tdi, td, input0))"
    and "resolve_overrides w r (ContainerDefinitions tdi) (Runner.Overrides r) [] tr0 =
           (tr1, Inl f)"
  shows "Run w r tr = (tr1, Inl f)"
  using assms
  by (simp add: Run_def Run_join_def Run_describe_def Run_submit_def bind_io_def)

lemma Run_register_Inr:
  assumes "Run_register w r [] = (tr0, Inr x)"
  shows "list_all is_setup tr0"
  using emits_onlyD [OF Run_register_emits, of w r "[]"] assms by auto

lemma resolve_overrides_setup:
  assumes "resolve_overrides w r defs ovs acc tr = (tr', res)" and "list_all is_setup tr"
  shows "list_all is_setup tr'"
  using emits_onlyD [OF resolve_overrides_emits, of w r defs ovs acc tr] assms by auto

lemma is_setup_not_RunTask: "list_all is_setup tr \<Longrightarrow> RunTask input \<notin> set tr"
  by (auto simp: list_all_iff)





subsection \<open>The events of a run extend those of its steps\<close>

lemma bind_io_extends:
  assumes "\<And>x t. \<exists>d. fst (f x t) = t @ d"
  shows "\<exists>d. fst (bind_io m f tr) = fst (m tr) @ d"
proof (cases "m tr")
  case (Pair t res)
  show ?thesis
  proof (cases res)
    case (Inl e)
    with Pair show ?thesis by (simp add: bind_io_def)
  next
    case (Inr x)
    from assms [of x t] obtain d where "fst (f x t) = t @ d" by blast
    with Pair Inr show ?thesis by (simp add: bind_io_def)
  qed
qed

lemma emits_only_extends: "emits_only P m \<Longrightarrow> \<exists>d. fst (m tr) = tr @ d"
  by (drule emits_onlyD [of P m tr]) auto

lemma finalizes_emits_only: "finalizes w m \<Longrightarrow> emits_only (\<lambda>e. True) m"
proof (rule emits_onlyI)
  fix tr
  assume "finalizes w m"
  from finalizesD [OF this, of tr]
  show "\<exists>d res. m tr = (tr @ d, res) \<and> list_all (\<lambda>e. True) d \<and> (\<forall>ee. res \<noteq> Inl (Exited ee))"
    by (auto simp: list_all_iff)
qed

lemma Run_events_Run_join: "fst (Run w r tr) = fst (Run_join w r tr)"
proof (cases "Run_join w r tr")
  case (Pair t res)
  then show ?thesis
    by (cases res) (simp_all add: Run_def bind_io_def aggregate_silent)
qed

lemma Run_join_extends: "\<exists>d. fst (Run_join w r tr) = fst (Run_describe w r tr) @ d"
  unfolding Run_join_def
proof (rule bind_io_extends)
  fix x :: "string \<times> Task list" and t
  have "emits_only (\<lambda>e. True)
      (case x of (streamPrefix, described) \<Rightarrow>
         bind_io (finalize w r streamPrefix described) (\<lambda>_.
         bind_io join (\<lambda>_. return_io described)))"
    unfolding join_def
    by (intro emits_only_case_prod emits_only_bind emits_only_emit emits_only_return
          finalizes_emits_only [OF finalize_finalizes]) simp_all
  then show "\<exists>d. fst ((case x of (streamPrefix, described) \<Rightarrow>
         bind_io (finalize w r streamPrefix described) (\<lambda>_.
         bind_io join (\<lambda>_. return_io described))) t) = t @ d"
    by (rule emits_only_extends)
qed

lemma Run_describe_extends: "\<exists>d. fst (Run_describe w r tr) = fst (Run_submit w r tr) @ d"
  unfolding Run_describe_def
proof (rule bind_io_extends)
  fix x :: "string \<times> Task list" and t
  have "emits_only is_early
      (case x of (streamPrefix, tasks) \<Rightarrow>
         bind_io (spawn_watchers r streamPrefix tasks) (\<lambda>_.
         bind_io (await_stopped w r tasks) (\<lambda>described.
         return_io (streamPrefix, described))))"
    by (intro emits_only_case_prod emits_only_bind emits_only_return spawn_watchers_emits
          await_stopped_emits)
  then show "\<exists>d. fst ((case x of (streamPrefix, tasks) \<Rightarrow>
         bind_io (spawn_watchers r streamPrefix tasks) (\<lambda>_.
         bind_io (await_stopped w r tasks) (\<lambda>described.
         return_io (streamPrefix, described)))) t) = t @ d"
    by (rule emits_only_extends)
qed

lemma Run_extends_Run_submit: "\<exists>d. fst (Run w r tr) = fst (Run_submit w r tr) @ d"
proof -
  from Run_join_extends [of w r tr] obtain d1
    where "fst (Run_join w r tr) = fst (Run_describe w r tr) @ d1" by blast
  moreover from Run_describe_extends [of w r tr] obtain d2
    where "fst (Run_describe w r tr) = fst (Run_submit w r tr) @ d2" by blast
  ultimately have "fst (Run w r tr) = fst (Run_submit w r tr) @ (d2 @ d1)"
    by (simp add: Run_events_Run_join)
  then show ?thesis by blast
qed

subsection \<open>An environment entry that the host does not have\<close>

text \<open>
  Claim C6, as amended. Take a run that has registered its definition and whose
  environment list holds a bare entry that the host environment does not have. If
  some override has a non-empty command, and the first such override names its target
  or the definition has exactly one container definition, with a name, then the run
  fails with the error "missing environment variable" before the job is submitted. If no
  override has a command, the environment list is not looked at: the overrides resolve
  to nothing without an error, and the job is submitted.
\<close>

theorem missing_environment_variable_fails_with_command_override:
  assumes "Run_register w r [] = (tr0, Inr (pre, tdi, td, input0))"
    and "K \<in> set (Runner.Environment r)" and "CHR ''='' \<notin> set K"
    and "os_LookupEnv w K = None"
  shows "(\<forall>before ov after.
            Runner.Overrides r = before @ ov # after \<and>
            (\<forall>x\<in>set before. Override.Command x = []) \<and> Override.Command ov \<noteq> [] \<and>
            (Override.Service ov \<noteq> [] \<or>
             (\<exists>d name. ContainerDefinitions tdi = [d] \<and>
                ContainerDefinition.Name d = Some name)) \<longrightarrow>
            (\<exists>tr' K'.
               Run w r [] =
                 (tr', Inl (Failed (Errorf ''missing environment variable %q'' [S K']))) \<and>
               K' \<in> set (Runner.Environment r) \<and> CHR ''='' \<notin> set K' \<and>
               os_LookupEnv w K' = None \<and> (\<forall>input. RunTask input \<notin> set tr'))) \<and>
         ((\<forall>x\<in>set (Runner.Overrides r). Override.Command x = []) \<longrightarrow>
            resolve_overrides w r (ContainerDefinitions tdi) (Runner.Overrides r) [] tr0 =
              (tr0, Inr []) \<and>
            (\<exists>rest. fst (Run w r []) =
               tr0 @ [LogPrintf ''Running task %s'' [S td],
                      RunTask (input0\<lparr>RunTaskInput.Overrides :=
                                 Some \<lparr>ContainerOverrides = []\<rparr>\<rparr>)] @ rest))"
proof (intro conjI allI impI)
  fix before ov after
  let ?defs = "ContainerDefinitions tdi"
  assume a: "Runner.Overrides r = before @ ov # after \<and>
            (\<forall>x\<in>set before. Override.Command x = []) \<and> Override.Command ov \<noteq> [] \<and>
            (Override.Service ov \<noteq> [] \<or>
             (\<exists>d name. ContainerDefinitions tdi = [d] \<and>
                ContainerDefinition.Name d = Some name))"
  then have ovs: "Runner.Overrides r = before @ ov # after"
    and quiet_before: "\<forall>x\<in>set before. Override.Command x = []"
    and cmd: "Override.Command ov \<noteq> []"
    by simp_all
  from awsKeyValuePairForEnv_missing [of K "Runner.Environment r" "os_LookupEnv w"] assms(2-4)
  obtain e
    where env: "awsKeyValuePairForEnv (os_LookupEnv w) (Runner.Environment r) = Inl e"
    by blast
  from awsKeyValuePairForEnv_Inl [OF env] obtain K'
    where K': "K' \<in> set (Runner.Environment r)" "CHR ''='' \<notin> set K'" "os_LookupEnv w K' = None"
      "e = Errorf ''missing environment variable %q'' [S K']"
    by blast
  have "\<exists>tr1. resolve_override w r ?defs [] ov tr0 = (tr1, Inl (Failed e))"
  proof (cases "Override.Service ov = []")
    case True
    with a obtain d name where "?defs = [d]" "ContainerDefinition.Name d = Some name"
      by blast
    from resolve_override_default [OF cmd True this, of w r "[]" tr0] env show ?thesis
      by simp
  next
    case False
    from resolve_override_explicit [OF cmd False, of w r ?defs "[]" tr0] env show ?thesis
      by simp
  qed
  then obtain tr1 where "resolve_override w r ?defs [] ov tr0 = (tr1, Inl (Failed e))"
    by blast
  with ovs quiet_before
  have res: "resolve_overrides w r ?defs (Runner.Overrides r) [] tr0 = (tr1, Inl (Failed e))"
    by (simp add: resolve_overrides_append resolve_overrides_no_command)
  have "Run w r [] = (tr1, Inl (Failed e))"
    using assms(1) res by (rule Run_resolve_Inl)
  moreover have "list_all is_setup tr1"
    using res Run_register_Inr [OF assms(1)] by (rule resolve_overrides_setup)
  then have "\<forall>input. RunTask input \<notin> set tr1"
    by (simp add: is_setup_not_RunTask)
  ultimately show "\<exists>tr' K'.
               Run w r [] =
                 (tr', Inl (Failed (Errorf ''missing environment variable %q'' [S K']))) \<and>
               K' \<in> set (Runner.Environment r) \<and> CHR ''='' \<notin> set K' \<and>
               os_LookupEnv w K' = None \<and> (\<forall>input. RunTask input \<notin> set tr')"
    using K' by blast
next
  assume "\<forall>x\<in>set (Runner.Overrides r). Override.Command x = []"
  then show none: "resolve_overrides w r (ContainerDefinitions tdi) (Runner.Overrides r) [] tr0 =
              (tr0, Inr [])"
    by (rule resolve_overrides_no_command)
  have "fst (Run_submit w r []) =
              tr0 @ [LogPrintf ''Running task %s'' [S td],
                     RunTask (input0\<lparr>RunTaskInput.Overrides :=
                                Some \<lparr>ContainerOverrides = []\<rparr>\<rparr>)]"
    using assms(1) none
    by (simp add: Run_submit_def bind_io_def emit_def throw_def return_io_def Let_def
          split: sum.splits)
  with Run_extends_Run_submit [of w r "[]"]
  show "\<exists>rest. fst (Run w r []) =
               tr0 @ [LogPrintf ''Running task %s'' [S td],
                      RunTask (input0\<lparr>RunTaskInput.Overrides :=
                                 Some \<lparr>ContainerOverrides = []\<rparr>\<rparr>)] @ rest"
    by auto
qed


theorem missing_environment_variable_fails_with_command_override_witness:
  "''USER'' \<in> set (Runner.Environment
      (demo_runner [\<lparr>Override.Service = ''worker'', Override.Command = [''./migrate'']\<rparr>]
         [''FOO=bar'', ''USER''])) \<and>
   CHR ''='' \<notin> set ''USER'' \<and>
   os_LookupEnv (demo_world demo_defs2 [] demo_accept) ''USER'' = None \<and>
   snd (Run (demo_world demo_defs2 [] demo_accept)
          (demo_runner [\<lparr>Override.Service = ''worker'', Override.Command = [''./migrate'']\<rparr>]
             [''FOO=bar'', ''USER'']) []) =
     Inl (Failed (Errorf ''missing environment variable %q'' [S ''USER''])) \<and>
   \<not> list_ex is_RunTask
       (fst (Run (demo_world demo_defs2 [] demo_accept)
          (demo_runner [\<lparr>Override.Service = ''worker'', Override.Command = [''./migrate'']\<rparr>]
             [''FOO=bar'', ''USER'']) []))"
proof -
  let ?ov = "\<lparr>Override.Service = ''worker'', Override.Command = [''./migrate'']\<rparr>"
  let ?r = "demo_runner [?ov] [''FOO=bar'', ''USER'']"
  let ?w = "demo_world demo_defs2 [] demo_accept"
  have K: "''USER'' \<in> set (Runner.Environment ?r)" "CHR ''='' \<notin> set ''USER''"
    "os_LookupEnv ?w ''USER'' = None"
    by (simp_all add: demo_runner_def demo_world_def demo_lookupEnv_def)
  have "\<exists>tr0 pre tdi td input0. Run_register ?w ?r [] = (tr0, Inr (pre, tdi, td, input0))"
    by (simp add: Run_register_def streamPrefix_of_def set_LogConfiguration_def
          new_RunTaskInput_def awsStrings_def fmt_d_def digits10.simps io_defs demo_simps)
  then obtain tr0 pre tdi td input0
    where reg: "Run_register ?w ?r [] = (tr0, Inr (pre, tdi, td, input0))"
    by blast
  have ovs: "Runner.Overrides ?r = [] @ ?ov # []" by (simp add: demo_runner_def)
  from missing_environment_variable_fails_with_command_override [OF reg K, THEN conjunct1,
      rule_format, of "[]" ?ov "[]"] ovs
  obtain tr' K' where run: "Run ?w ?r [] =
        (tr', Inl (Failed (Errorf ''missing environment variable %q'' [S K'])))"
    and K': "K' \<in> set (Runner.Environment ?r)" "CHR ''='' \<notin> set K'"
    and quiet: "\<forall>input. RunTask input \<notin> set tr'"
    by auto
  from K' have "K' = ''USER''" by (auto simp: demo_runner_def)
  with run have 1: "snd (Run ?w ?r []) =
      Inl (Failed (Errorf ''missing environment variable %q'' [S ''USER'']))"
    by simp
  have "\<not> is_RunTask x" if "x \<in> set tr'" for x
    using quiet that by (cases x) auto
  with run have 2: "\<not> list_ex is_RunTask (fst (Run ?w ?r []))"
    by (auto simp: list_ex_iff)
  from K 1 2 show ?thesis by blast
qed

text \<open>
  Claim C6 as stated fails. With the bare entry \<^verbatim>\<open>USER\<close>, which the host environment
  does not have, and no override, the run submits the job and ends with nil. With two
  container definitions and, as first override with a command, one without target, the
  run fails with the error of that override; and when the parser rejects the definition,
  with the parser's error.
\<close>

theorem missing_environment_variable_counterexample:
  "''USER'' \<in> set (Runner.Environment (demo_runner [] [''USER''])) \<and>
   CHR ''='' \<notin> set ''USER'' \<and>
   os_LookupEnv (demo_world demo_defs (demo_tasks [Some 0, Some 0, Some 0, Some 0]) demo_accept)
     ''USER'' = None \<and>
   list_ex is_RunTask
     (fst (Run (demo_world demo_defs (demo_tasks [Some 0, Some 0, Some 0, Some 0]) demo_accept)
             (demo_runner [] [''USER'']) [])) \<and>
   snd (Run (demo_world demo_defs (demo_tasks [Some 0, Some 0, Some 0, Some 0]) demo_accept)
          (demo_runner [] [''USER'']) []) = Inr () \<and>
   snd (Run (demo_world demo_defs2 [] demo_accept)
          (demo_runner [\<lparr>Override.Service = [], Override.Command = [''./migrate'']\<rparr>]
             [''USER'']) []) =
     Inl (Failed (Errorf
       (''No service provided for override and can't determine default service ''
          @ ''with %d container definitions'') [D 2])) \<and>
   Run ((demo_world demo_defs [] demo_accept)\<lparr>parser_Parse := \<lambda>file env. Inl ''malformed''\<rparr>)
     (demo_runner [\<lparr>Override.Service = ''worker'', Override.Command = [''./migrate'']\<rparr>]
        [''USER'']) [] =
     ([], Inl (Failed (External ''malformed'')))"
  by (simp add: run_defs demo_simps)

subsection \<open>The streams that a run reads and writes\<close>

lemma Run_register_prefix:
  assumes "Run_register w r tr = (tr', Inr (pre, tdi, td, input0))"
  shows "pre = streamPrefix_of w r"
  using assms
  by (auto simp: Run_register_def io_defs
        split: sum.splits option.splits prod.splits if_splits)

lemma Run_submit_prefix:
  assumes "Run_submit w r tr = (tr', Inr (pre, tasks))"
  shows "pre = streamPrefix_of w r"
proof -
  from assms obtain t0 p tdi td input0
    where reg: "Run_register w r tr = (t0, Inr (p, tdi, td, input0))"
    by (cases "Run_register w r tr")
       (auto simp: Run_submit_def bind_io_def split: sum.splits prod.splits)
  from assms reg have "pre = p"
    by (auto simp: Run_submit_def io_defs split: sum.splits prod.splits)
  with Run_register_prefix [OF reg] show ?thesis by simp
qed

lemma is_setup_plain: "is_setup e \<Longrightarrow> is_plain e"
  by (cases e) (simp_all add: is_plain_def)

lemma Run_submit_plain: "emits_only is_plain (Run_submit w r)"
  unfolding Run_submit_def Let_def
  by (intro emits_only_bind emits_only_case_prod emits_only_case_sum emits_only_emit
        emits_only_return emits_only_Failed
        emits_only_mono [OF Run_register_emits is_setup_plain]
        emits_only_mono [OF resolve_overrides_emits is_setup_plain])
     (simp_all add: is_plain_def)

lemma await_stopped_plain: "emits_only is_plain (await_stopped w r tasks)"
  unfolding await_stopped_def Let_def
  by (intro emits_only_for_each emits_only_bind emits_only_deref emits_only_emit
        emits_only_return emits_only_case_option emits_only_checked emits_only_Failed)
     (simp_all add: is_plain_def)

lemma container_pairs_iff:
  "(task, container) \<in> set (container_pairs tasks) \<longleftrightarrow>
     task \<in> set tasks \<and> container \<in> set (Containers task)"
  by (auto simp: container_pairs_def)

lemma for_each_events:
  assumes "\<And>x t. x \<in> set xs \<Longrightarrow>
     \<exists>d res. body x t = (t @ d, res) \<and> (\<forall>e\<in>set d. R e x) \<and>
       (res = Inr () \<longrightarrow> (\<exists>e\<in>set d. R e x))"
  shows "\<exists>d res. for_each body xs tr = (tr @ d, res) \<and> (\<forall>e\<in>set d. \<exists>x\<in>set xs. R e x) \<and>
           (res = Inr () \<longrightarrow> (\<forall>x\<in>set xs. \<exists>e\<in>set d. R e x))"
  using assms
proof (induction xs arbitrary: tr)
  case Nil
  show ?case by simp
next
  case (Cons y ys)
  from Cons.prems [of y tr] obtain d res
    where y: "body y tr = (tr @ d, res)" "\<forall>e\<in>set d. R e y"
      "res = Inr () \<longrightarrow> (\<exists>e\<in>set d. R e y)"
    by auto
  show ?case
  proof (cases res)
    case (Inl f)
    with y have "for_each body (y # ys) tr = (tr @ d, Inl f)" by simp
    with y(2) show ?thesis by auto
  next
    case (Inr u)
    have "\<exists>d' res'. for_each body ys (tr @ d) = ((tr @ d) @ d', res') \<and>
            (\<forall>e\<in>set d'. \<exists>x\<in>set ys. R e x) \<and>
            (res' = Inr () \<longrightarrow> (\<forall>x\<in>set ys. \<exists>e\<in>set d'. R e x))"
      by (rule Cons.IH) (simp add: Cons.prems)
    then obtain d' res'
      where ys: "for_each body ys (tr @ d) = ((tr @ d) @ d', res')"
        "\<forall>e\<in>set d'. \<exists>x\<in>set ys. R e x"
        "res' = Inr () \<longrightarrow> (\<forall>x\<in>set ys. \<exists>e\<in>set d'. R e x)"
      by blast
    from y(1) Inr ys(1) have run: "for_each body (y # ys) tr = (tr @ (d @ d'), res')" by simp
    from y(3) Inr obtain e where e: "e \<in> set d" "R e y" by auto
    have all: "\<forall>e\<in>set (d @ d'). \<exists>x\<in>set (y # ys). R e x"
      using y(2) ys(2) by auto
    have ok: "res' = Inr () \<longrightarrow> (\<forall>x\<in>set (y # ys). \<exists>e\<in>set (d @ d'). R e x)"
      using e ys(3) by auto
    from run all ok show ?thesis by blast
  qed
qed

lemma spawn_body_events:
  "\<exists>d res.
     bind_io (new_logWatcher r pre task container) (\<lambda>watcher. emit (GoWatch watcher)) t =
       (t @ d, res) \<and>
     (\<forall>e\<in>set d. watches r pre e (task, container)) \<and>
     (res = Inr () \<longrightarrow> (\<exists>e\<in>set d. watches r pre e (task, container)))"
  by (cases "ContainerArn container"; cases "Container.Name container"; cases "TaskArn task")
     (simp_all add: new_logWatcher_def logStreamName_def io_defs watches_def)

lemma spawn_watchers_flat:
  "spawn_watchers r pre tasks tr =
     for_each (\<lambda>(task, container).
         bind_io (new_logWatcher r pre task container) (\<lambda>watcher. emit (GoWatch watcher)))
       (container_pairs tasks) tr"
proof -
  have "for_each (\<lambda>container.
           bind_io (new_logWatcher r pre task container) (\<lambda>watcher. emit (GoWatch watcher)))
          (Containers task) =
        for_each (\<lambda>(task, container).
           bind_io (new_logWatcher r pre task container) (\<lambda>watcher. emit (GoWatch watcher)))
          (map (Pair task) (Containers task))" for task
    by (rule ext) (simp add: for_each_map)
  then show ?thesis
    by (simp add: spawn_watchers_def container_pairs_def for_each_concat [symmetric])
qed

lemma spawn_watchers_events:
  "\<exists>d res. spawn_watchers r pre tasks tr = (tr @ d, res) \<and>
     (\<forall>e\<in>set d. \<exists>x\<in>set (container_pairs tasks). watches r pre e x) \<and>
     (res = Inr () \<longrightarrow> (\<forall>x\<in>set (container_pairs tasks). \<exists>e\<in>set d. watches r pre e x))"
  unfolding spawn_watchers_flat
  by (rule for_each_events) (auto simp: spawn_body_events)

lemma finish_container_events:
  "\<exists>d res. finish_container w r pre task container t = (t @ d, res) \<and>
     (\<forall>e\<in>set d. finishes r pre e (task, container)) \<and>
     (res = Inr () \<longrightarrow> (\<exists>e\<in>set d. finishes r pre e (task, container)))"
  by (cases "Container.Name container"; cases "TaskArn task"; cases "LastStatus container";
      cases "ExitCode container"; cases "Reason container"; cases "ContainerArn container")
     (simp_all add: finish_container_def new_logWriter_def logStreamName_def
        writeContainerFinishedMessage_def WriteString_io_def io_defs finishes_def)

lemma finalize_events:
  "\<exists>d res. finalize w r pre tasks tr = (tr @ d, res) \<and>
     (\<forall>e\<in>set d. \<exists>x\<in>set (container_pairs tasks). finishes r pre e x) \<and>
     (res = Inr () \<longrightarrow> (\<forall>x\<in>set (container_pairs tasks). \<exists>e\<in>set d. finishes r pre e x))"
  unfolding finalize_flat container_pairs_def [symmetric]
  by (rule for_each_events) (auto simp: finish_container_events)

lemma Run_describe_events:
  obtains
    (not_submitted) t0 f where
      "list_all is_plain t0" "Run_describe w r [] = (t0, Inl f)"
  | (submitted) t0 tasks ws a res where
      "Run_submit w r [] = (t0, Inr (streamPrefix_of w r, tasks))"
      "list_all is_plain t0"
      "\<forall>e\<in>set ws. \<exists>x\<in>set (container_pairs tasks). watches r (streamPrefix_of w r) e x"
      "list_all is_plain a"
      "Run_describe w r [] = (t0 @ ws @ a, res)"
      "\<And>p described. res = Inr (p, described) \<Longrightarrow>
         p = streamPrefix_of w r \<and>
         (\<forall>x\<in>set (container_pairs tasks). \<exists>e\<in>set ws. watches r (streamPrefix_of w r) e x)"
proof -
  let ?P = "streamPrefix_of w r"
  from emits_onlyD [OF Run_submit_plain, of w r "[]"] obtain t0 res0
    where sub: "Run_submit w r [] = (t0, res0)" and t0: "list_all is_plain t0"
    by auto
  show thesis
  proof (cases res0)
    case (Inl f)
    with sub have "Run_describe w r [] = (t0, Inl f)"
      by (simp add: Run_describe_def bind_io_def)
    with t0 show thesis by (rule not_submitted)
  next
    case (Inr pt)
    obtain p tasks where pt: "pt = (p, tasks)" by (cases pt)
    from sub Inr pt have "Run_submit w r [] = (t0, Inr (p, tasks))" by simp
    from this Run_submit_prefix [OF this]
    have sub': "Run_submit w r [] = (t0, Inr (?P, tasks))" by simp
    from spawn_watchers_events [of r ?P tasks t0] obtain ws resW
      where sp: "spawn_watchers r ?P tasks t0 = (t0 @ ws, resW)"
        and ws: "\<forall>e\<in>set ws. \<exists>x\<in>set (container_pairs tasks). watches r ?P e x"
        and all: "resW = Inr () \<longrightarrow>
                    (\<forall>x\<in>set (container_pairs tasks). \<exists>e\<in>set ws. watches r ?P e x)"
      by blast
    show thesis
    proof (cases resW)
      case (Inl f)
      with sub' sp have "Run_describe w r [] = (t0 @ ws @ [], Inl f)"
        by (simp add: Run_describe_def bind_io_def)
      with sub' t0 ws show thesis
        by (intro submitted [of t0 tasks ws "[]" "Inl f"]) simp_all
    next
      case (Inr u)
      from emits_onlyD [OF await_stopped_plain, of w r tasks "t0 @ ws"] obtain a resA
        where aw: "await_stopped w r tasks (t0 @ ws) = ((t0 @ ws) @ a, resA)"
          and a: "list_all is_plain a"
        by auto
      let ?res = "case resA of Inl f \<Rightarrow> Inl f | Inr described \<Rightarrow> Inr (?P, described)"
      from sub' sp Inr aw have desc: "Run_describe w r [] = (t0 @ ws @ a, ?res)"
        by (simp add: Run_describe_def bind_io_def return_io_def split: sum.splits)
      have "p' = ?P \<and> (\<forall>x\<in>set (container_pairs tasks). \<exists>e\<in>set ws. watches r ?P e x)"
        if "?res = Inr (p', described)" for p' described
        using that all Inr by (cases resA) simp_all
      with sub' t0 ws a desc show thesis
        by (intro submitted [of t0 tasks ws a ?res]) blast+
    qed
  qed
qed

lemma Run_join_events:
  assumes "Run_describe w r [] = (t1, Inr (p, described))"
  obtains fs j res where
    "\<forall>e\<in>set fs. \<exists>x\<in>set (container_pairs described). finishes r p e x"
    "list_all is_plain j"
    "Run_join w r [] = (t1 @ fs @ j, res)"
    "\<And>d. res = Inr d \<Longrightarrow>
       d = described \<and> (\<forall>x\<in>set (container_pairs described). \<exists>e\<in>set fs. finishes r p e x)"
proof -
  from finalize_events [of w r p described t1] obtain fs resF
    where fin: "finalize w r p described t1 = (t1 @ fs, resF)"
      and fs: "\<forall>e\<in>set fs. \<exists>x\<in>set (container_pairs described). finishes r p e x"
      and all: "resF = Inr () \<longrightarrow>
                  (\<forall>x\<in>set (container_pairs described). \<exists>e\<in>set fs. finishes r p e x)"
    by blast
  show thesis
  proof (cases resF)
    case (Inl f)
    with assms fin have "Run_join w r [] = (t1 @ fs @ [], Inl f)"
      by (simp add: Run_join_def bind_io_def)
    with fs show thesis
      by (intro that [of fs "[]" "Inl f"]) simp_all
  next
    case (Inr u)
    with fin have "finalize w r p described t1 = (t1 @ fs, Inr ())" by simp
    from Run_finalize_Inr [OF assms this]
    have "Run_join w r [] =
            (t1 @ fs @ [LogPrintf ''Waiting for logs to finish'' [], WgWait], Inr described)"
      by simp
    with fs all Inr show thesis
      by (intro that [of fs "[LogPrintf ''Waiting for logs to finish'' [], WgWait]"
            "Inr described"]) (simp_all add: is_plain_def)
  qed
qed

lemma Run_stream_cases:
  obtains
    (not_submitted) t0 f where
      "list_all is_plain t0" "Run_join w r [] = (t0, Inl f)"
  | (not_described) t0 tasks ws a f where
      "Run_submit w r [] = (t0, Inr (streamPrefix_of w r, tasks))"
      "list_all is_plain t0"
      "\<forall>e\<in>set ws. \<exists>x\<in>set (container_pairs tasks). watches r (streamPrefix_of w r) e x"
      "list_all is_plain a"
      "Run_join w r [] = (t0 @ ws @ a, Inl f)"
  | (described) t0 tasks ws a described fs j res where
      "Run_submit w r [] = (t0, Inr (streamPrefix_of w r, tasks))"
      "list_all is_plain t0"
      "\<forall>e\<in>set ws. \<exists>x\<in>set (container_pairs tasks). watches r (streamPrefix_of w r) e x"
      "\<forall>x\<in>set (container_pairs tasks). \<exists>e\<in>set ws. watches r (streamPrefix_of w r) e x"
      "list_all is_plain a"
      "Run_describe w r [] = (t0 @ ws @ a, Inr (streamPrefix_of w r, described))"
      "\<forall>e\<in>set fs. \<exists>x\<in>set (container_pairs described). finishes r (streamPrefix_of w r) e x"
      "list_all is_plain j"
      "Run_join w r [] = (t0 @ ws @ a @ fs @ j, res)"
      "\<And>d. res = Inr d \<Longrightarrow>
         d = described \<and>
         (\<forall>x\<in>set (container_pairs described). \<exists>e\<in>set fs.
            finishes r (streamPrefix_of w r) e x)"
proof (cases rule: Run_describe_events [of w r])
  case (not_submitted t0 f)
  from not_submitted(2) have "Run_join w r [] = (t0, Inl f)"
    by (simp add: Run_join_def bind_io_def)
  with not_submitted(1) show thesis by (rule that(1))
next
  case (submitted t0 tasks ws a res)
  let ?P = "streamPrefix_of w r"
  show thesis
  proof (cases res)
    case (Inl f)
    with submitted(5) have "Run_join w r [] = (t0 @ ws @ a, Inl f)"
      by (simp add: Run_join_def bind_io_def)
    with submitted(1-4) show thesis by (rule that(2))
  next
    case (Inr pd)
    obtain p described where pd: "pd = (p, described)" by (cases pd)
    from submitted(6) [of p described] Inr pd
    have p: "p = ?P"
      and all: "\<forall>x\<in>set (container_pairs tasks). \<exists>e\<in>set ws. watches r ?P e x"
      by simp_all
    from submitted(5) Inr pd p
    have desc: "Run_describe w r [] = (t0 @ ws @ a, Inr (?P, described))" by simp
    from Run_join_events [OF desc] obtain fs j res'
      where fs: "\<forall>e\<in>set fs. \<exists>x\<in>set (container_pairs described). finishes r ?P e x"
        and j: "list_all is_plain j"
        and run: "Run_join w r [] = ((t0 @ ws @ a) @ fs @ j, res')"
        and ok: "\<And>d. res' = Inr d \<Longrightarrow>
           d = described \<and>
           (\<forall>x\<in>set (container_pairs described). \<exists>e\<in>set fs. finishes r ?P e x)"
      by blast
    from run have run': "Run_join w r [] = (t0 @ ws @ a @ fs @ j, res')" by simp
    from submitted(1,2,3) all submitted(4) desc fs j run' ok show thesis by (rule that(3))
  qed
qed

lemma plain_no_GoWatch: "list_all is_plain xs \<Longrightarrow> GoWatch watcher \<notin> set xs"
  by (auto simp: list_all_iff is_plain_def)

lemma plain_no_WriteString: "list_all is_plain xs \<Longrightarrow> WriteString lw msg \<notin> set xs"
  by (auto simp: list_all_iff is_plain_def)

lemma watches_no_WriteString:
  "\<forall>e\<in>set ws. \<exists>x\<in>set xs. watches r p e x \<Longrightarrow> WriteString lw msg \<notin> set ws"
  by (auto simp: watches_def)

lemma finishes_no_GoWatch:
  "\<forall>e\<in>set fs. \<exists>x\<in>set xs. finishes r p e x \<Longrightarrow> GoWatch watcher \<notin> set fs"
  by (auto simp: finishes_def)

lemma Run_GoWatch:
  assumes "GoWatch watcher \<in> set (fst (Run w r []))"
  shows "\<exists>tr0 tasks x.
           Run_submit w r [] = (tr0, Inr (streamPrefix_of w r, tasks)) \<and>
           x \<in> set (container_pairs tasks) \<and>
           watches r (streamPrefix_of w r) (GoWatch watcher) x"
proof -
  from assms have mem: "GoWatch watcher \<in> set (fst (Run_join w r []))"
    by (simp add: Run_events_Run_join)
  show ?thesis
  proof (cases rule: Run_stream_cases [of w r])
    case (not_submitted t0 f)
    with mem plain_no_GoWatch [of t0 watcher] show ?thesis by simp
  next
    case (not_described t0 tasks ws a f)
    with mem plain_no_GoWatch [of t0 watcher] plain_no_GoWatch [of a watcher]
    have "GoWatch watcher \<in> set ws" by simp
    with not_described(1,3) show ?thesis by blast
  next
    case (described t0 tasks ws a described fs j res)
    from mem described(9) plain_no_GoWatch [OF described(2), of watcher]
      plain_no_GoWatch [OF described(5), of watcher]
      plain_no_GoWatch [OF described(8), of watcher]
      finishes_no_GoWatch [OF described(7), of watcher]
    have "GoWatch watcher \<in> set ws" by simp
    with described(1,3) show ?thesis by blast
  qed
qed

lemma Run_WriteString:
  assumes "WriteString lw msg \<in> set (fst (Run w r []))"
  shows "\<exists>tr1 described x.
           Run_describe w r [] = (tr1, Inr (streamPrefix_of w r, described)) \<and>
           x \<in> set (container_pairs described) \<and>
           finishes r (streamPrefix_of w r) (WriteString lw msg) x"
proof -
  from assms have mem: "WriteString lw msg \<in> set (fst (Run_join w r []))"
    by (simp add: Run_events_Run_join)
  show ?thesis
  proof (cases rule: Run_stream_cases [of w r])
    case (not_submitted t0 f)
    with mem plain_no_WriteString [of t0 lw msg] show ?thesis by simp
  next
    case (not_described t0 tasks ws a f)
    with mem plain_no_WriteString [of t0 lw msg] plain_no_WriteString [of a lw msg]
      watches_no_WriteString [OF not_described(3), of lw msg]
    show ?thesis by simp
  next
    case (described t0 tasks ws a described fs j res)
    from mem described(9) plain_no_WriteString [OF described(2), of lw msg]
      plain_no_WriteString [OF described(5), of lw msg]
      plain_no_WriteString [OF described(8), of lw msg]
      watches_no_WriteString [OF described(3), of lw msg]
    have "WriteString lw msg \<in> set fs" by simp
    with described(6,7) show ?thesis by blast
  qed
qed

lemma Run_joined_streams:
  assumes "Run_join w r [] = (tr, Inr described)"
  shows "\<exists>tr0 tasks tr1.
           Run_submit w r [] = (tr0, Inr (streamPrefix_of w r, tasks)) \<and>
           Run_describe w r [] = (tr1, Inr (streamPrefix_of w r, described)) \<and>
           (\<forall>x\<in>set (container_pairs tasks). \<exists>e\<in>set tr.
              watches r (streamPrefix_of w r) e x) \<and>
           (\<forall>x\<in>set (container_pairs described). \<exists>e\<in>set tr.
              finishes r (streamPrefix_of w r) e x)"
proof (cases rule: Run_stream_cases [of w r])
  case (not_submitted t0 f)
  with assms show ?thesis by simp
next
  case (not_described t0 tasks ws a f)
  with assms show ?thesis by simp
next
  case (described t0 tasks ws a described' fs j res)
  from assms described(9) have tr: "tr = t0 @ ws @ a @ fs @ j" and "res = Inr described"
    by simp_all
  from described(10) [OF this(2)]
  have d: "described = described'"
    and fin: "\<forall>x\<in>set (container_pairs described'). \<exists>e\<in>set fs.
                finishes r (streamPrefix_of w r) e x"
    by simp_all
  have 1: "\<forall>x\<in>set (container_pairs tasks). \<exists>e\<in>set tr. watches r (streamPrefix_of w r) e x"
    using described(4) tr by auto
  have 2: "\<forall>x\<in>set (container_pairs described). \<exists>e\<in>set tr.
             finishes r (streamPrefix_of w r) e x"
    using fin tr d by auto
  from described(1) described(6) [folded d] 1 2 show ?thesis by blast
qed

lemma Run_reaches_join:
  assumes "WgWait \<in> set (fst (Run w r []))"
  shows "\<exists>tr described. Run_join w r [] = (tr, Inr described)"
proof (cases rule: Run_cases [of w r])
  case (failed before writes f)
  from early_no_join [OF failed(1)] writes_no_join [OF failed(2)] failed(3) assms
  show ?thesis by simp
next
  case (joined before writes pre described)
  from Run_finalize_Inr [OF joined(3,4)] show ?thesis by blast
qed

text \<open>
  Claim C7. The log stream of a container is the text \<open>prefix/containerName/taskIdBase\<close>,
  a function of the stream prefix, the container's name and the task's ARN, of which
  \<open>taskIdBase\<close> is \<^verbatim>\<open>path.Base\<close>, the segment after the last slash. In the events of
  any run of \<^verbatim>\<open>Run\<close>, the reader and the writer address that stream with the one
  stream prefix of the run: every watcher that is started is the watcher of a
  container of a task of the response to the submission, and reads the stream of that
  prefix, the container's name and the task's ARN; every write of a finish message is
  the one of a container of a described task, to the stream of the same prefix, that
  container's name and that task's ARN. A run that reaches the join (\<^verbatim>\<open>wg.Wait()\<close> is
  among its events) has started the watcher of every container of every task of the
  response and has written the finish message of every container of every described
  task; so for a container of the response and a described container of the same name,
  in tasks of the same ARN, its events hold a watcher and a write of the same log group
  and the same stream.
\<close>

theorem Run_reads_and_writes_same_log_stream:
  "(\<forall>pre container task name taskArn t.
      Container.Name container = Some name \<and> TaskArn task = Some taskArn \<longrightarrow>
      logStreamName pre container task t =
        (t, Inr (pre @ ''/'' @ name @ ''/'' @ path_Base taskArn))) \<and>
   (\<forall>dir seg. CHR ''/'' \<notin> set seg \<and> seg \<noteq> [] \<longrightarrow> path_Base (dir @ ''/'' @ seg) = seg) \<and>
   (\<forall>watcher. GoWatch watcher \<in> set (fst (Run w r [])) \<longrightarrow>
      (\<exists>tr0 tasks task container name taskArn arn.
         Run_submit w r [] = (tr0, Inr (streamPrefix_of w r, tasks)) \<and>
         task \<in> set tasks \<and> container \<in> set (Containers task) \<and>
         Container.Name container = Some name \<and> TaskArn task = Some taskArn \<and>
         ContainerArn container = Some arn \<and>
         watcher =
           \<lparr>logWatcher.LogGroupName = Runner.LogGroupName r,
            logWatcher.LogStreamName =
              streamPrefix_of w r @ ''/'' @ name @ ''/'' @ path_Base taskArn,
            containerId = path_Base arn\<rparr>)) \<and>
   (\<forall>lw msg. WriteString lw msg \<in> set (fst (Run w r [])) \<longrightarrow>
      (\<exists>tr1 described task container name taskArn arn code.
         Run_describe w r [] = (tr1, Inr (streamPrefix_of w r, described)) \<and>
         task \<in> set described \<and> container \<in> set (Containers task) \<and>
         Container.Name container = Some name \<and> TaskArn task = Some taskArn \<and>
         ContainerArn container = Some arn \<and> ExitCode container = Some code \<and>
         lw =
           \<lparr>logWriter.LogGroupName = Runner.LogGroupName r,
            logWriter.LogStreamName =
              streamPrefix_of w r @ ''/'' @ name @ ''/'' @ path_Base taskArn\<rparr> \<and>
         msg = ''Container '' @ path_Base arn @ '' exited with '' @ fmt_d (sint code))) \<and>
   (WgWait \<in> set (fst (Run w r [])) \<longrightarrow>
      (\<exists>tr0 tasks tr1 described.
         Run_submit w r [] = (tr0, Inr (streamPrefix_of w r, tasks)) \<and>
         Run_describe w r [] = (tr1, Inr (streamPrefix_of w r, described)) \<and>
         (\<forall>task\<in>set tasks. \<forall>container\<in>set (Containers task).
            \<exists>name taskArn arn.
              Container.Name container = Some name \<and> TaskArn task = Some taskArn \<and>
              ContainerArn container = Some arn \<and>
              GoWatch
                \<lparr>logWatcher.LogGroupName = Runner.LogGroupName r,
                 logWatcher.LogStreamName =
                   streamPrefix_of w r @ ''/'' @ name @ ''/'' @ path_Base taskArn,
                 containerId = path_Base arn\<rparr> \<in> set (fst (Run w r []))) \<and>
         (\<forall>task\<in>set described. \<forall>container\<in>set (Containers task).
            \<exists>name taskArn arn code.
              Container.Name container = Some name \<and> TaskArn task = Some taskArn \<and>
              ContainerArn container = Some arn \<and> ExitCode container = Some code \<and>
              WriteString
                \<lparr>logWriter.LogGroupName = Runner.LogGroupName r,
                 logWriter.LogStreamName =
                   streamPrefix_of w r @ ''/'' @ name @ ''/'' @ path_Base taskArn\<rparr>
                (''Container '' @ path_Base arn @ '' exited with '' @ fmt_d (sint code))
                \<in> set (fst (Run w r []))) \<and>
         (\<forall>task\<in>set tasks. \<forall>container\<in>set (Containers task).
          \<forall>task'\<in>set described. \<forall>container'\<in>set (Containers task').
            Container.Name container' = Container.Name container \<and>
            TaskArn task' = TaskArn task \<longrightarrow>
            (\<exists>name taskArn arn arn' code.
               Container.Name container = Some name \<and> TaskArn task = Some taskArn \<and>
               ContainerArn container = Some arn \<and> ContainerArn container' = Some arn' \<and>
               ExitCode container' = Some code \<and>
               GoWatch
                 \<lparr>logWatcher.LogGroupName = Runner.LogGroupName r,
                  logWatcher.LogStreamName =
                    streamPrefix_of w r @ ''/'' @ name @ ''/'' @ path_Base taskArn,
                  containerId = path_Base arn\<rparr> \<in> set (fst (Run w r [])) \<and>
               WriteString
                 \<lparr>logWriter.LogGroupName = Runner.LogGroupName r,
                  logWriter.LogStreamName =
                    streamPrefix_of w r @ ''/'' @ name @ ''/'' @ path_Base taskArn\<rparr>
                 (''Container '' @ path_Base arn' @ '' exited with '' @ fmt_d (sint code))
                 \<in> set (fst (Run w r []))))))"
proof (intro conjI allI impI)
  fix pre name taskArn t and container :: Container and task :: Task
  assume "Container.Name container = Some name \<and> TaskArn task = Some taskArn"
  then show "logStreamName pre container task t =
               (t, Inr (pre @ ''/'' @ name @ ''/'' @ path_Base taskArn))"
    by (simp add: logStreamName_eq)
next
  fix dir seg :: string
  assume "CHR ''/'' \<notin> set seg \<and> seg \<noteq> []"
  then have "CHR ''/'' \<notin> set seg" and "seg \<noteq> []" by simp_all
  then show "path_Base (dir @ ''/'' @ seg) = seg"
    by (rule path_Base_last_segment)
next
  fix watcher
  assume "GoWatch watcher \<in> set (fst (Run w r []))"
  from Run_GoWatch [OF this] obtain tr0 tasks task container
    where sub: "Run_submit w r [] = (tr0, Inr (streamPrefix_of w r, tasks))"
      and mem: "(task, container) \<in> set (container_pairs tasks)"
      and e: "watches r (streamPrefix_of w r) (GoWatch watcher) (task, container)"
    by auto
  from mem have mem': "task \<in> set tasks" "container \<in> set (Containers task)"
    by (simp_all add: container_pairs_iff)
  from e obtain name taskArn arn
    where "Container.Name container = Some name" "TaskArn task = Some taskArn"
      "ContainerArn container = Some arn"
      "watcher =
         \<lparr>logWatcher.LogGroupName = Runner.LogGroupName r,
          logWatcher.LogStreamName =
            streamPrefix_of w r @ ''/'' @ name @ ''/'' @ path_Base taskArn,
          containerId = path_Base arn\<rparr>"
    unfolding watches_def by auto
  with sub mem' show "\<exists>tr0 tasks task container name taskArn arn.
         Run_submit w r [] = (tr0, Inr (streamPrefix_of w r, tasks)) \<and>
         task \<in> set tasks \<and> container \<in> set (Containers task) \<and>
         Container.Name container = Some name \<and> TaskArn task = Some taskArn \<and>
         ContainerArn container = Some arn \<and>
         watcher =
           \<lparr>logWatcher.LogGroupName = Runner.LogGroupName r,
            logWatcher.LogStreamName =
              streamPrefix_of w r @ ''/'' @ name @ ''/'' @ path_Base taskArn,
            containerId = path_Base arn\<rparr>"
    by blast
next
  fix lw msg
  assume "WriteString lw msg \<in> set (fst (Run w r []))"
  from Run_WriteString [OF this] obtain tr1 described task container
    where desc: "Run_describe w r [] = (tr1, Inr (streamPrefix_of w r, described))"
      and mem: "(task, container) \<in> set (container_pairs described)"
      and e: "finishes r (streamPrefix_of w r) (WriteString lw msg) (task, container)"
    by auto
  from mem have mem': "task \<in> set described" "container \<in> set (Containers task)"
    by (simp_all add: container_pairs_iff)
  from e obtain name taskArn arn code
    where "Container.Name container = Some name" "TaskArn task = Some taskArn"
      "ContainerArn container = Some arn" "ExitCode container = Some code"
      "lw =
         \<lparr>logWriter.LogGroupName = Runner.LogGroupName r,
          logWriter.LogStreamName =
            streamPrefix_of w r @ ''/'' @ name @ ''/'' @ path_Base taskArn\<rparr>"
      "msg = ''Container '' @ path_Base arn @ '' exited with '' @ fmt_d (sint code)"
    unfolding finishes_def by auto
  with desc mem' show "\<exists>tr1 described task container name taskArn arn code.
         Run_describe w r [] = (tr1, Inr (streamPrefix_of w r, described)) \<and>
         task \<in> set described \<and> container \<in> set (Containers task) \<and>
         Container.Name container = Some name \<and> TaskArn task = Some taskArn \<and>
         ContainerArn container = Some arn \<and> ExitCode container = Some code \<and>
         lw =
           \<lparr>logWriter.LogGroupName = Runner.LogGroupName r,
            logWriter.LogStreamName =
              streamPrefix_of w r @ ''/'' @ name @ ''/'' @ path_Base taskArn\<rparr> \<and>
         msg = ''Container '' @ path_Base arn @ '' exited with '' @ fmt_d (sint code)"
    by blast
next
  assume "WgWait \<in> set (fst (Run w r []))"
  from Run_reaches_join [OF this] obtain tr described
    where j: "Run_join w r [] = (tr, Inr described)"
    by blast
  from Run_events_Run_join [of w r "[]"] j have run: "fst (Run w r []) = tr" by simp
  let ?P = "streamPrefix_of w r"
  from Run_joined_streams [OF j] obtain tr0 tasks tr1
    where sub: "Run_submit w r [] = (tr0, Inr (?P, tasks))"
      and desc: "Run_describe w r [] = (tr1, Inr (?P, described))"
      and ws: "\<forall>x\<in>set (container_pairs tasks). \<exists>e\<in>set tr. watches r ?P e x"
      and fs: "\<forall>x\<in>set (container_pairs described). \<exists>e\<in>set tr. finishes r ?P e x"
    by blast
  have watched: "\<exists>name taskArn arn.
      Container.Name container = Some name \<and> TaskArn task = Some taskArn \<and>
      ContainerArn container = Some arn \<and>
      GoWatch
        \<lparr>logWatcher.LogGroupName = Runner.LogGroupName r,
         logWatcher.LogStreamName = ?P @ ''/'' @ name @ ''/'' @ path_Base taskArn,
         containerId = path_Base arn\<rparr> \<in> set tr"
    if "task \<in> set tasks" "container \<in> set (Containers task)" for task container
  proof -
    from that have "(task, container) \<in> set (container_pairs tasks)"
      by (simp add: container_pairs_iff)
    with ws obtain e where "e \<in> set tr" "watches r ?P e (task, container)" by blast
    then show ?thesis unfolding watches_def by auto
  qed
  have finished: "\<exists>name taskArn arn code.
      Container.Name container = Some name \<and> TaskArn task = Some taskArn \<and>
      ContainerArn container = Some arn \<and> ExitCode container = Some code \<and>
      WriteString
        \<lparr>logWriter.LogGroupName = Runner.LogGroupName r,
         logWriter.LogStreamName = ?P @ ''/'' @ name @ ''/'' @ path_Base taskArn\<rparr>
        (''Container '' @ path_Base arn @ '' exited with '' @ fmt_d (sint code)) \<in> set tr"
    if "task \<in> set described" "container \<in> set (Containers task)" for task container
  proof -
    from that have "(task, container) \<in> set (container_pairs described)"
      by (simp add: container_pairs_iff)
    with fs obtain e where "e \<in> set tr" "finishes r ?P e (task, container)" by blast
    then show ?thesis unfolding finishes_def by auto
  qed
  have same: "\<exists>name taskArn arn arn' code.
      Container.Name container = Some name \<and> TaskArn task = Some taskArn \<and>
      ContainerArn container = Some arn \<and> ContainerArn container' = Some arn' \<and>
      ExitCode container' = Some code \<and>
      GoWatch
        \<lparr>logWatcher.LogGroupName = Runner.LogGroupName r,
         logWatcher.LogStreamName = ?P @ ''/'' @ name @ ''/'' @ path_Base taskArn,
         containerId = path_Base arn\<rparr> \<in> set tr \<and>
      WriteString
        \<lparr>logWriter.LogGroupName = Runner.LogGroupName r,
         logWriter.LogStreamName = ?P @ ''/'' @ name @ ''/'' @ path_Base taskArn\<rparr>
        (''Container '' @ path_Base arn' @ '' exited with '' @ fmt_d (sint code)) \<in> set tr"
    if "task \<in> set tasks" "container \<in> set (Containers task)"
      "task' \<in> set described" "container' \<in> set (Containers task')"
      "Container.Name container' = Container.Name container \<and> TaskArn task' = TaskArn task"
    for task container task' container'
  proof -
    from watched [OF that(1,2)] obtain name taskArn arn
      where c: "Container.Name container = Some name" "TaskArn task = Some taskArn"
        "ContainerArn container = Some arn"
        "GoWatch
          \<lparr>logWatcher.LogGroupName = Runner.LogGroupName r,
           logWatcher.LogStreamName = ?P @ ''/'' @ name @ ''/'' @ path_Base taskArn,
           containerId = path_Base arn\<rparr> \<in> set tr"
      by blast
    from finished [OF that(3,4)] that(5) c(1,2) obtain arn' code
      where c': "ContainerArn container' = Some arn'" "ExitCode container' = Some code"
        "WriteString
          \<lparr>logWriter.LogGroupName = Runner.LogGroupName r,
           logWriter.LogStreamName = ?P @ ''/'' @ name @ ''/'' @ path_Base taskArn\<rparr>
          (''Container '' @ path_Base arn' @ '' exited with '' @ fmt_d (sint code)) \<in> set tr"
      by auto
    from c c' show ?thesis by blast
  qed
  from sub desc watched finished same
  show "\<exists>tr0 tasks tr1 described.
         Run_submit w r [] = (tr0, Inr (streamPrefix_of w r, tasks)) \<and>
         Run_describe w r [] = (tr1, Inr (streamPrefix_of w r, described)) \<and>
         (\<forall>task\<in>set tasks. \<forall>container\<in>set (Containers task).
            \<exists>name taskArn arn.
              Container.Name container = Some name \<and> TaskArn task = Some taskArn \<and>
              ContainerArn container = Some arn \<and>
              GoWatch
                \<lparr>logWatcher.LogGroupName = Runner.LogGroupName r,
                 logWatcher.LogStreamName =
                   streamPrefix_of w r @ ''/'' @ name @ ''/'' @ path_Base taskArn,
                 containerId = path_Base arn\<rparr> \<in> set (fst (Run w r []))) \<and>
         (\<forall>task\<in>set described. \<forall>container\<in>set (Containers task).
            \<exists>name taskArn arn code.
              Container.Name container = Some name \<and> TaskArn task = Some taskArn \<and>
              ContainerArn container = Some arn \<and> ExitCode container = Some code \<and>
              WriteString
                \<lparr>logWriter.LogGroupName = Runner.LogGroupName r,
                 logWriter.LogStreamName =
                   streamPrefix_of w r @ ''/'' @ name @ ''/'' @ path_Base taskArn\<rparr>
                (''Container '' @ path_Base arn @ '' exited with '' @ fmt_d (sint code))
                \<in> set (fst (Run w r []))) \<and>
         (\<forall>task\<in>set tasks. \<forall>container\<in>set (Containers task).
          \<forall>task'\<in>set described. \<forall>container'\<in>set (Containers task').
            Container.Name container' = Container.Name container \<and>
            TaskArn task' = TaskArn task \<longrightarrow>
            (\<exists>name taskArn arn arn' code.
               Container.Name container = Some name \<and> TaskArn task = Some taskArn \<and>
               ContainerArn container = Some arn \<and> ContainerArn container' = Some arn' \<and>
               ExitCode container' = Some code \<and>
               GoWatch
                 \<lparr>logWatcher.LogGroupName = Runner.LogGroupName r,
                  logWatcher.LogStreamName =
                    streamPrefix_of w r @ ''/'' @ name @ ''/'' @ path_Base taskArn,
                  containerId = path_Base arn\<rparr> \<in> set (fst (Run w r [])) \<and>
               WriteString
                 \<lparr>logWriter.LogGroupName = Runner.LogGroupName r,
                  logWriter.LogStreamName =
                    streamPrefix_of w r @ ''/'' @ name @ ''/'' @ path_Base taskArn\<rparr>
                 (''Container '' @ path_Base arn' @ '' exited with '' @ fmt_d (sint code))
                 \<in> set (fst (Run w r []))))"
    unfolding run
    by (intro exI [of _ tr0] exI [of _ tasks] exI [of _ tr1] exI [of _ described]
          conjI ballI impI) blast+
qed

theorem Run_reads_and_writes_same_log_stream_witness:
  "WgWait
     \<in> set (fst (Run (demo_world demo_defs (demo_tasks [Some 0, Some 0, Some 3, Some 0])
                        demo_accept)
                   ((demo_runner [] [])\<lparr>TaskName := []\<rparr>) [])) \<and>
   GoWatch \<lparr>logWatcher.LogGroupName = ''grp'',
            logWatcher.LogStreamName = ''run_task_42/side/t1'',
            containerId = ''c2''\<rparr>
     \<in> set (fst (Run (demo_world demo_defs (demo_tasks [Some 0, Some 0, Some 3, Some 0])
                        demo_accept)
                   ((demo_runner [] [])\<lparr>TaskName := []\<rparr>) [])) \<and>
   WriteString \<lparr>logWriter.LogGroupName = ''grp'',
                logWriter.LogStreamName = ''run_task_42/side/t1''\<rparr>
       ''Container c2 exited with 0''
     \<in> set (fst (Run (demo_world demo_defs (demo_tasks [Some 0, Some 0, Some 3, Some 0])
                        demo_accept)
                   ((demo_runner [] [])\<lparr>TaskName := []\<rparr>) []))"
proof -
  let ?codes = "[Some 0, Some 0, Some 3, Some 0] :: int64 option list"
  let ?w = "demo_world demo_defs (demo_tasks ?codes) demo_accept"
  let ?r = "(demo_runner [] [])\<lparr>TaskName := []\<rparr>"
  let ?task = "demo_task [demo_container ''worker'' ''c1'' (Some 0),
                          demo_container ''side'' ''c2'' (Some 0)]"
  let ?container = "demo_container ''side'' ''c2'' (Some 0)"
  have wg: "WgWait \<in> set (fst (Run ?w ?r []))"
    by (simp add: run_defs demo_simps)
  have sub: "snd (Run_submit ?w ?r []) = Inr (''run_task_42'', demo_tasks ?codes)"
    by (simp add: run_defs demo_simps)
  have desc: "snd (Run_describe ?w ?r []) = Inr (''run_task_42'', demo_tasks ?codes)"
    by (simp add: run_defs demo_simps)
  from Run_reads_and_writes_same_log_stream [of ?w ?r, THEN conjunct2, THEN conjunct2,
      THEN conjunct2, THEN conjunct2, rule_format, OF wg]
  obtain tr0 tasks tr1 described
    where s: "Run_submit ?w ?r [] = (tr0, Inr (streamPrefix_of ?w ?r, tasks))"
      and d: "Run_describe ?w ?r [] = (tr1, Inr (streamPrefix_of ?w ?r, described))"
      and same: "\<forall>task\<in>set tasks. \<forall>container\<in>set (Containers task).
          \<forall>task'\<in>set described. \<forall>container'\<in>set (Containers task').
            Container.Name container' = Container.Name container \<and>
            TaskArn task' = TaskArn task \<longrightarrow>
            (\<exists>name taskArn arn arn' code.
               Container.Name container = Some name \<and> TaskArn task = Some taskArn \<and>
               ContainerArn container = Some arn \<and> ContainerArn container' = Some arn' \<and>
               ExitCode container' = Some code \<and>
               GoWatch
                 \<lparr>logWatcher.LogGroupName = Runner.LogGroupName ?r,
                  logWatcher.LogStreamName =
                    streamPrefix_of ?w ?r @ ''/'' @ name @ ''/'' @ path_Base taskArn,
                  containerId = path_Base arn\<rparr> \<in> set (fst (Run ?w ?r [])) \<and>
               WriteString
                 \<lparr>logWriter.LogGroupName = Runner.LogGroupName ?r,
                  logWriter.LogStreamName =
                    streamPrefix_of ?w ?r @ ''/'' @ name @ ''/'' @ path_Base taskArn\<rparr>
                 (''Container '' @ path_Base arn' @ '' exited with '' @ fmt_d (sint code))
                 \<in> set (fst (Run ?w ?r [])))"
    by blast
  from s sub have tasks: "tasks = demo_tasks ?codes" by simp
  from d desc have described: "described = demo_tasks ?codes" by simp
  have mem: "?task \<in> set tasks" "?container \<in> set (Containers ?task)"
    by (simp_all add: tasks demo_tasks_def demo_task_def)
  have mem': "?task \<in> set described"
    by (simp add: described demo_tasks_def)
  have "\<exists>name taskArn arn arn' code.
          Container.Name ?container = Some name \<and> TaskArn ?task = Some taskArn \<and>
          ContainerArn ?container = Some arn \<and> ContainerArn ?container = Some arn' \<and>
          ExitCode ?container = Some code \<and>
          GoWatch
            \<lparr>logWatcher.LogGroupName = Runner.LogGroupName ?r,
             logWatcher.LogStreamName =
               streamPrefix_of ?w ?r @ ''/'' @ name @ ''/'' @ path_Base taskArn,
             containerId = path_Base arn\<rparr> \<in> set (fst (Run ?w ?r [])) \<and>
          WriteString
            \<lparr>logWriter.LogGroupName = Runner.LogGroupName ?r,
             logWriter.LogStreamName =
               streamPrefix_of ?w ?r @ ''/'' @ name @ ''/'' @ path_Base taskArn\<rparr>
            (''Container '' @ path_Base arn' @ '' exited with '' @ fmt_d (sint code))
            \<in> set (fst (Run ?w ?r []))"
    using same [rule_format, OF mem(1) mem(2) mem' mem(2)] by simp
  then have "GoWatch \<lparr>logWatcher.LogGroupName = ''grp'',
            logWatcher.LogStreamName = ''run_task_42/side/t1'',
            containerId = ''c2''\<rparr> \<in> set (fst (Run ?w ?r [])) \<and>
      WriteString \<lparr>logWriter.LogGroupName = ''grp'',
                logWriter.LogStreamName = ''run_task_42/side/t1''\<rparr>
       ''Container c2 exited with 0'' \<in> set (fst (Run ?w ?r []))"
    by (simp add: demo_container_def demo_task_def demo_runner_def demo_world_def
          streamPrefix_of_def path_Base_def fmt_d_def digits10.simps)
  with wg show ?thesis by simp
qed

end
